theory Spec2Isabelle
  imports Complex_Main
begin

section \<open>Strings and paths\<close>

text \<open>
  A JavaScript string is modelled as a \<open>string\<close>: one \<open>char\<close> per code unit.
  Code units above 255 have no counterpart here; the functions below treat them
  like any other unit that is neither an ASCII letter nor an ASCII digit.
\<close>

definition startsWith :: "string \<Rightarrow> string \<Rightarrow> bool" where
  "startsWith s p = (take (length p) s = p)"

definition endsWith :: "string \<Rightarrow> string \<Rightarrow> bool" where
  "endsWith s p = (length p \<le> length s \<and> drop (length s - length p) s = p)"

text \<open>
  \<open>s.replace(pat, rep)\<close> with a string pattern: only the first occurrence of
  \<open>pat\<close> is replaced. None of the replacement strings of the program contains
  a dollar sign, so the special replacement patterns play no part.
\<close>

fun replaceFirst :: "string \<Rightarrow> string \<Rightarrow> string \<Rightarrow> string" where
  "replaceFirst pat rep [] = (if pat = [] then rep else [])"
| "replaceFirst pat rep (c # cs) =
     (if startsWith (c # cs) pat then rep @ drop (length pat) (c # cs)
      else c # replaceFirst pat rep cs)"

text \<open>
  \<open>path.parse(file).name\<close> for a plain file name (no directory separator, not
  \<open>..\<close>): the name without its last extension; a dot in first position does
  not start an extension.
\<close>

definition pathParseName :: "string \<Rightarrow> string" where
  "pathParseName file =
     (let ext = takeWhile (\<lambda>c. c \<noteq> CHR ''.'') (rev file) in
      if CHR ''.'' \<notin> set file \<or> Suc (length ext) = length file then file
      else take (length file - Suc (length ext)) file)"

definition pathJoin :: "string \<Rightarrow> string \<Rightarrow> string" where
  "pathJoin dir file = (if file = [] then dir else dir @ ''/'' @ file)"

section \<open>Podcast directory names (download-metadata.ts, index.ts, saveMetadata)\<close>

definition isDigit :: "char \<Rightarrow> bool" where
  "isDigit c = (48 \<le> (of_char c :: nat) \<and> (of_char c :: nat) \<le> 57)"

definition isUpper :: "char \<Rightarrow> bool" where
  "isUpper c = (65 \<le> (of_char c :: nat) \<and> (of_char c :: nat) \<le> 90)"

definition isLower :: "char \<Rightarrow> bool" where
  "isLower c = (97 \<le> (of_char c :: nat) \<and> (of_char c :: nat) \<le> 122)"

text \<open>The characters the class \<open>[a-z0-9]\<close> matches under the flag \<open>i\<close>.\<close>

definition isAlnum :: "char \<Rightarrow> bool" where
  "isAlnum c = (isLower c \<or> isUpper c \<or> isDigit c)"

text \<open>\<open>.replace(/[^a-z0-9]/gi, "_")\<close>: every match is one character long.\<close>

fun replaceNonAlnum :: "string \<Rightarrow> string" where
  "replaceNonAlnum [] = []"
| "replaceNonAlnum (c # cs) = (if isAlnum c then [c] else ''_'') @ replaceNonAlnum cs"

text \<open>
  \<open>toLowerCase\<close> on ASCII; at its call site every character is an ASCII letter,
  an ASCII digit or an underscore.
\<close>

definition toLowerCaseChar :: "char \<Rightarrow> char" where
  "toLowerCaseChar c = (if isUpper c then char_of ((of_char c :: nat) + 32) else c)"

definition toLowerCase :: "string \<Rightarrow> string" where
  "toLowerCase s = map toLowerCaseChar s"

definition sanitizedTitle :: "string \<Rightarrow> string" where
  "sanitizedTitle feedTitle = toLowerCase (replaceNonAlnum feedTitle)"

definition podcastDirOf :: "string \<Rightarrow> string" where
  "podcastDirOf feedTitle = pathJoin ''data'' (sanitizedTitle feedTitle)"

text \<open>
  The naming rule in the words of the specification: the title in lower case,
  every run of consecutive non-alphanumeric characters collapsed to one underscore.
\<close>

fun spec_collapse :: "bool \<Rightarrow> string \<Rightarrow> string" where
  "spec_collapse inRun [] = []"
| "spec_collapse inRun (c # cs) =
     (if isAlnum c then toLowerCaseChar c # spec_collapse False cs
      else (if inRun then [] else ''_'') @ spec_collapse True cs)"

definition spec_collapseRuns :: "string \<Rightarrow> string" where
  "spec_collapseRuns feedTitle = spec_collapse False feedTitle"

section \<open>JSON values\<close>

text \<open>
  The value \<open>JSON.parse\<close> returns. A number carries the value of the double
  (JSON has no NaN; zero stands for both zeros). An object lists its own
  properties; \<open>JSON.parse\<close> keeps one value per key.
\<close>

datatype json =
    JNull
  | JBool bool
  | JNum rat
  | JStr string
  | JArr "json list"
  | JObj "(string \<times> json) list"

datatype JsError = TypeError

text \<open>
  \<open>value[key]\<close> for the keys the validators read; \<open>None\<close> is \<open>undefined\<close>.
  None of these keys names a member of \<open>Object.prototype\<close> or
  \<open>Array.prototype\<close>, so only own properties count, and an array has none
  under these names.
\<close>

fun getProp :: "json \<Rightarrow> string \<Rightarrow> json option" where
  "getProp (JObj kvs) k = map_of kvs k"
| "getProp v k = None"

fun truthy :: "json option \<Rightarrow> bool" where
  "truthy None = False"
| "truthy (Some JNull) = False"
| "truthy (Some (JBool b)) = b"
| "truthy (Some (JNum x)) = (x \<noteq> 0)"
| "truthy (Some (JStr s)) = (s \<noteq> [])"
| "truthy (Some (JArr xs)) = True"
| "truthy (Some (JObj kvs)) = True"

fun typeofObject :: "json \<Rightarrow> bool" where
  "typeofObject JNull = True"
| "typeofObject (JArr xs) = True"
| "typeofObject (JObj kvs) = True"
| "typeofObject v = False"

fun typeofNumber :: "json option \<Rightarrow> bool" where
  "typeofNumber (Some (JNum x)) = True"
| "typeofNumber v = False"

fun typeofString :: "json option \<Rightarrow> bool" where
  "typeofString (Some (JStr s)) = True"
| "typeofString v = False"

record ('e, 'a) Validation =
  isValid :: bool
  errors :: "'e list"
  data :: "'a option"

section \<open>validateEpisodeData (index.ts)\<close>

definition requiredNumber :: "json \<Rightarrow> string \<Rightarrow> string \<Rightarrow> string list" where
  "requiredNumber raw field message =
     (if \<not> truthy (getProp raw field) \<or> \<not> typeofNumber (getProp raw field)
      then [message] else [])"

definition requiredString :: "json \<Rightarrow> string \<Rightarrow> string \<Rightarrow> string list" where
  "requiredString raw field message =
     (if \<not> truthy (getProp raw field) \<or> \<not> typeofString (getProp raw field)
      then [message] else [])"

definition optionalNumber :: "json \<Rightarrow> string \<Rightarrow> string \<Rightarrow> string list" where
  "optionalNumber raw field message =
     (if truthy (getProp raw field) \<and> \<not> typeofNumber (getProp raw field)
      then [message] else [])"

definition episodeErrors :: "json \<Rightarrow> string list" where
  "episodeErrors raw =
     requiredNumber raw ''id'' ''Missing or invalid id (must be a number)'' @
     requiredString raw ''title'' ''Missing or invalid title (must be a string)'' @
     optionalNumber raw ''datePublished'' ''Invalid datePublished (must be a number)'' @
     optionalNumber raw ''dateCrawled'' ''Invalid dateCrawled (must be a number)'' @
     optionalNumber raw ''duration'' ''Invalid duration (must be a number)'' @
     optionalNumber raw ''episode'' ''Invalid episode (must be a number)''"

definition validateEpisodeData :: "json \<Rightarrow> (string, json) Validation" where
  "validateEpisodeData raw =
     (if \<not> truthy (Some raw) \<or> \<not> typeofObject raw
      then \<lparr>isValid = False, errors = [''Data is not an object''], data = None\<rparr>
      else let errs = episodeErrors raw in
        \<lparr>isValid = (errs = []), errors = errs,
         data = (if errs = [] then Some raw else None)\<rparr>)"

section \<open>validateTranscriptData (index.ts)\<close>

text \<open>
  One constructor per message template of the source; the index, the field name,
  the offending value and the entry are the values the template embeds.
\<close>

datatype TranscriptError =
    NotAnArray
  | EntryNotObject nat
  | MissingOrInvalid nat string json
  | InvalidFormat nat string "json option" json
  | SecondsTooLarge nat string "json option" json

fun errorIndex :: "TranscriptError \<Rightarrow> nat option" where
  "errorIndex NotAnArray = None"
| "errorIndex (EntryNotObject i) = Some i"
| "errorIndex (MissingOrInvalid i f e) = Some i"
| "errorIndex (InvalidFormat i f v e) = Some i"
| "errorIndex (SecondsTooLarge i f v e) = Some i"

text \<open>
  Whether an error is one of the two timestamp messages (wrong format, seconds
  not below 60) for the given entry index and field.
\<close>

fun timestampErrorAt :: "nat \<Rightarrow> string \<Rightarrow> TranscriptError \<Rightarrow> bool" where
  "timestampErrorAt i f (InvalidFormat j g v e) = (i = j \<and> f = g)"
| "timestampErrorAt i f (SecondsTooLarge j g v e) = (i = j \<and> f = g)"
| "timestampErrorAt i f x = False"

text \<open>The regular expression \<open>/^\d+:\d{2}$/\<close> on a string.\<close>

definition timestampRegex :: "string \<Rightarrow> bool" where
  "timestampRegex s =
     (takeWhile isDigit s \<noteq> [] \<and>
      (case dropWhile isDigit s of
         [c, a, b] \<Rightarrow> c = CHR '':'' \<and> isDigit a \<and> isDigit b
       | _ \<Rightarrow> False))"

text \<open>
  \<open>timestampRegex.test(v)\<close> converts \<open>v\<close> to a string first. The conversion of
  an object that has an own property \<open>toString\<close> raises a TypeError (a parsed
  JSON value is never callable), and so does the conversion of an array that
  holds such an object.
\<close>

fun toStringThrows :: "json \<Rightarrow> bool" where
  "toStringThrows (JObj kvs) = (''toString'' \<in> set (map fst kvs))"
| "toStringThrows (JArr xs) = list_ex toStringThrows xs"
| "toStringThrows v = False"

text \<open>
  Whether the string of a value matches. Numbers, booleans, \<open>null\<close>,
  \<open>undefined\<close> and plain objects convert to strings without a colon; an array
  converts to its elements' strings joined by commas (\<open>null\<close> as the empty
  string), which can match only when the array has one element.
\<close>

fun coercedMatches :: "json \<Rightarrow> bool" where
  "coercedMatches (JStr s) = timestampRegex s"
| "coercedMatches (JArr [x]) = coercedMatches x"
| "coercedMatches v = False"

definition regexTest :: "json option \<Rightarrow> JsError + bool" where
  "regexTest v =
     (case v of
        None \<Rightarrow> Inr False
      | Some x \<Rightarrow> if toStringThrows x then Inl TypeError else Inr (coercedMatches x))"

text \<open>\<open>s.split(":")\<close>.\<close>

fun splitColon :: "string \<Rightarrow> string list" where
  "splitColon [] = [[]]"
| "splitColon (c # cs) =
     (if c = CHR '':'' then [] # splitColon cs
      else (case splitColon cs of
              [] \<Rightarrow> [[c]]
            | p # ps \<Rightarrow> (c # p) # ps))"

text \<open>
  \<open>Number(s)\<close> on the pieces of a string the regular expression matched: digit
  strings. \<open>None\<close> is NaN.
\<close>

definition digitValue :: "char \<Rightarrow> nat" where
  "digitValue c = (of_char c :: nat) - 48"

definition Number :: "string \<Rightarrow> nat option" where
  "Number s =
     (if list_all isDigit s then Some (foldl (\<lambda>n c. 10 * n + digitValue c) 0 s)
      else None)"

text \<open>\<open>const [, seconds] = s.split(":").map(Number); seconds >= 60\<close>.\<close>

definition secondsTooLarge :: "string \<Rightarrow> bool" where
  "secondsTooLarge s =
     (case map Number (splitColon s) of
        m # Some seconds # rest \<Rightarrow> seconds \<ge> 60
      | _ \<Rightarrow> False)"

definition checkTimestamp :: "nat \<Rightarrow> string \<Rightarrow> json \<Rightarrow> JsError + TranscriptError list" where
  "checkTimestamp index field entry =
     (let v = getProp entry field in
      case regexTest v of
        Inl e \<Rightarrow> Inl e
      | Inr matches \<Rightarrow>
          if \<not> matches then Inr [InvalidFormat index field v entry]
          else (case v of
                  Some (JStr s) \<Rightarrow>
                    Inr (if secondsTooLarge s then [SecondsTooLarge index field v entry] else [])
                | _ \<Rightarrow> Inl TypeError))"

definition requiredField :: "nat \<Rightarrow> string \<Rightarrow> json \<Rightarrow> TranscriptError list" where
  "requiredField index field entry =
     (if \<not> truthy (getProp entry field) \<or> \<not> typeofString (getProp entry field)
      then [MissingOrInvalid index field entry] else [])"

definition validateEntry :: "nat \<Rightarrow> json \<Rightarrow> JsError + TranscriptError list" where
  "validateEntry index entry =
     (if \<not> truthy (Some entry) \<or> \<not> typeofObject entry then Inr [EntryNotObject index]
      else
        let required =
              requiredField index ''speaker'' entry @
              requiredField index ''timestampFrom'' entry @
              requiredField index ''timestampTo'' entry @
              requiredField index ''content'' entry
        in case checkTimestamp index ''timestampFrom'' entry of
             Inl e \<Rightarrow> Inl e
           | Inr fromErrors \<Rightarrow>
               (case checkTimestamp index ''timestampTo'' entry of
                  Inl e \<Rightarrow> Inl e
                | Inr toErrors \<Rightarrow> Inr (required @ fromErrors @ toErrors)))"

text \<open>\<open>data.forEach((entry, index) => ...)\<close>; an exception leaves the loop.\<close>

fun validateEntries :: "nat \<Rightarrow> json list \<Rightarrow> JsError + TranscriptError list" where
  "validateEntries index [] = Inr []"
| "validateEntries index (entry # rest) =
     (case validateEntry index entry of
        Inl e \<Rightarrow> Inl e
      | Inr errs \<Rightarrow>
          (case validateEntries (Suc index) rest of
             Inl e \<Rightarrow> Inl e
           | Inr later \<Rightarrow> Inr (errs @ later)))"

definition validateTranscriptData :: "json \<Rightarrow> JsError + (TranscriptError, json list) Validation" where
  "validateTranscriptData raw =
     (case raw of
        JArr entries \<Rightarrow>
          (case validateEntries 0 entries of
             Inl e \<Rightarrow> Inl e
           | Inr errs \<Rightarrow>
               Inr \<lparr>isValid = (errs = []), errors = errs,
                    data = (if errs = [] then Some entries else None)\<rparr>)
      | _ \<Rightarrow> Inr \<lparr>isValid = False, errors = [NotAnArray], data = None\<rparr>)"

text \<open>A transcript entry with four string fields, as the transcription stage writes it.\<close>

definition segmentJson :: "string \<Rightarrow> string \<Rightarrow> string \<Rightarrow> string \<Rightarrow> json" where
  "segmentJson sp tsFrom tsTo txt =
     JObj [(''speaker'', JStr sp), (''timestampFrom'', JStr tsFrom),
           (''timestampTo'', JStr tsTo), (''content'', JStr txt)]"

section \<open>Well-formed input, in the words of the specification\<close>

text \<open>
  A timestamp: digits, a colon, then exactly two digits, the two-digit component
  in the range from 0 to 59.
\<close>

definition spec_timestampAccepted :: "string \<Rightarrow> bool" where
  "spec_timestampAccepted s =
     (case rev s of
        b # a # c # m \<Rightarrow>
          m \<noteq> [] \<and> list_all isDigit m \<and> c = CHR '':'' \<and> isDigit a \<and> isDigit b \<and>
          10 * digitValue a + digitValue b < 60
      | _ \<Rightarrow> False)"

text \<open>
  A transcript entry: an object whose \<open>speaker\<close> and \<open>content\<close> are non-empty
  strings and whose \<open>timestampFrom\<close> and \<open>timestampTo\<close> are timestamps.
\<close>

definition spec_nonEmptyString :: "json option \<Rightarrow> bool" where
  "spec_nonEmptyString v = (case v of Some (JStr s) \<Rightarrow> s \<noteq> [] | _ \<Rightarrow> False)"

definition spec_validTimestamp :: "json option \<Rightarrow> bool" where
  "spec_validTimestamp v = (case v of Some (JStr s) \<Rightarrow> spec_timestampAccepted s | _ \<Rightarrow> False)"

definition spec_wellFormedEntry :: "json \<Rightarrow> bool" where
  "spec_wellFormedEntry entry =
     (case entry of
        JObj kvs \<Rightarrow>
          spec_nonEmptyString (map_of kvs ''speaker'') \<and>
          spec_nonEmptyString (map_of kvs ''content'') \<and>
          spec_validTimestamp (map_of kvs ''timestampFrom'') \<and>
          spec_validTimestamp (map_of kvs ''timestampTo'')
      | _ \<Rightarrow> False)"

text \<open>
  The values the episode checks let through: for \<open>id\<close> a number other than
  zero; for an optional field nothing, a falsy value or a number.
\<close>

definition isNonZeroNumber :: "json option \<Rightarrow> bool" where
  "isNonZeroNumber v = (case v of Some (JNum x) \<Rightarrow> x \<noteq> 0 | _ \<Rightarrow> False)"

definition isFalsyOrNumber :: "json option \<Rightarrow> bool" where
  "isFalsyOrNumber v =
     (case v of
        None \<Rightarrow> True
      | Some JNull \<Rightarrow> True
      | Some (JBool b) \<Rightarrow> \<not> b
      | Some (JStr s) \<Rightarrow> s = []
      | Some (JNum x) \<Rightarrow> True
      | Some _ \<Rightarrow> False)"

text \<open>Entries whose timestamp fields are neither arrays nor objects.\<close>

definition plainTimestamp :: "json option \<Rightarrow> bool" where
  "plainTimestamp v = (case v of Some (JArr xs) \<Rightarrow> False | Some (JObj kvs) \<Rightarrow> False | _ \<Rightarrow> True)"

definition plainTimestamps :: "json \<Rightarrow> bool" where
  "plainTimestamps entry =
     (plainTimestamp (getProp entry ''timestampFrom'') \<and> plainTimestamp (getProp entry ''timestampTo''))"

section \<open>Reading artifacts (label-speakers.ts)\<close>

text \<open>
  What a path holds when a loader reads it: nothing (\<open>existsSync\<close> is false), a
  file that \<open>readFileSync\<close> or \<open>JSON.parse\<close> fails on, or a file that parses to
  a value.
\<close>

datatype FileState = Absent | Unreadable | Holds json

text \<open>
  Both loaders return the console lines they print and their result;
  \<open>JNull\<close> is \<open>null\<close>.
\<close>

definition loadEpisodeMetadata :: "(string \<Rightarrow> FileState) \<Rightarrow> string \<Rightarrow> string \<Rightarrow> string list \<times> json" where
  "loadEpisodeMetadata fs directory metadataFile =
     (let metadataPath = pathJoin directory metadataFile in
      case fs metadataPath of
        Absent \<Rightarrow> ([''No metadata found at: '' @ metadataPath], JNull)
      | Unreadable \<Rightarrow> ([''Error loading episode metadata:''], JNull)
      | Holds v \<Rightarrow> ([], v))"

definition loadTranscript :: "(string \<Rightarrow> FileState) \<Rightarrow> string \<Rightarrow> string \<Rightarrow> string list \<times> json" where
  "loadTranscript fs directory transcriptFile =
     (let transcriptPath = pathJoin directory transcriptFile in
      case fs transcriptPath of
        Absent \<Rightarrow> ([''No transcript found at: '' @ transcriptPath], JArr [])
      | Unreadable \<Rightarrow> ([''Error loading transcript:''], JArr [])
      | Holds v \<Rightarrow> ([], v))"

text \<open>
  Two disks to read from: one holds nothing, the other holds a metadata file and
  a transcript that do not parse.
\<close>

definition emptyDisk :: "string \<Rightarrow> FileState" where
  "emptyDisk path = Absent"

definition corruptDisk :: "string \<Rightarrow> FileState" where
  "corruptDisk path =
     (if path = ''data/pod/1.json'' \<or> path = ''data/pod/1_transcript.json'' then Unreadable
      else Absent)"

section \<open>Speaker labelling (label-speakers.ts)\<close>

record TranscriptSegment =
  speaker :: string
  timestampFrom :: string
  timestampTo :: string
  content :: string

text \<open>
  What \<open>speakerMapping[key]\<close> evaluates to. The mapping is a plain object, so a
  key it does not own is looked up in \<open>Object.prototype\<close>, whose members are
  functions (and, for \<open>__proto__\<close>, the prototype object itself).
\<close>

datatype PropValue = Undefined | StringValue string | PrototypeMember

record LabeledTranscriptSegment = TranscriptSegment +
  labeledSpeaker :: PropValue

text \<open>The own properties of a \<open>SpeakerMapping\<close> object.\<close>

type_synonym SpeakerMapping = "string \<rightharpoonup> string"

definition objectPrototypeMembers :: "string list" where
  "objectPrototypeMembers =
     [''constructor'', ''__proto__'', ''hasOwnProperty'', ''isPrototypeOf'',
      ''propertyIsEnumerable'', ''toLocaleString'', ''toString'', ''valueOf'',
      ''__defineGetter__'', ''__defineSetter__'', ''__lookupGetter__'', ''__lookupSetter__'']"

definition readProperty :: "SpeakerMapping \<Rightarrow> string \<Rightarrow> PropValue" where
  "readProperty m k =
     (case m k of
        Some v \<Rightarrow> StringValue v
      | None \<Rightarrow> if k \<in> set objectPrototypeMembers then PrototypeMember else Undefined)"

fun truthyProp :: "PropValue \<Rightarrow> bool" where
  "truthyProp Undefined = False"
| "truthyProp (StringValue s) = (s \<noteq> [])"
| "truthyProp PrototypeMember = True"

text \<open>\<open>[...new Set(xs)]\<close>: the distinct values in order of first occurrence.\<close>

fun uniqueValues :: "'a list \<Rightarrow> 'a list \<Rightarrow> 'a list" where
  "uniqueValues seen [] = []"
| "uniqueValues seen (x # xs) =
     (if x \<in> set seen then uniqueValues seen xs else x # uniqueValues (x # seen) xs)"

text \<open>
  The answer of the labelling model: the request throws, the response has no
  text, the text is not JSON, or it parses to an object with string values
  (the type \<open>SpeakerMapping\<close> the source casts it to).
\<close>

datatype GeminiResponse = RequestFailed | NoText | InvalidJson | Parsed SpeakerMapping

definition ensureMapped :: "SpeakerMapping \<Rightarrow> string \<Rightarrow> SpeakerMapping" where
  "ensureMapped speakerMapping sp =
     (if \<not> truthyProp (readProperty speakerMapping sp)
      then speakerMapping(sp \<mapsto> ''Unknown Speaker'') else speakerMapping)"

definition fallbackMapping :: "string list \<Rightarrow> SpeakerMapping" where
  "fallbackMapping uniqueSpeakers = map_of (map (\<lambda>sp. (sp, ''Unknown Speaker'')) uniqueSpeakers)"

text \<open>
  The episode metadata only enters the prompt, so the function is given the
  model's answer in its place.
\<close>

definition identifySpeakers :: "TranscriptSegment list \<Rightarrow> GeminiResponse \<Rightarrow> SpeakerMapping" where
  "identifySpeakers transcript response =
     (let uniqueSpeakers = uniqueValues [] (map speaker transcript) in
      case response of
        Parsed speakerMapping \<Rightarrow> foldl ensureMapped speakerMapping uniqueSpeakers
      | _ \<Rightarrow> fallbackMapping uniqueSpeakers)"

text \<open>\<open>speakerMapping[segment.speaker] || "Unknown Speaker"\<close>.\<close>

definition labelFor :: "SpeakerMapping \<Rightarrow> string \<Rightarrow> PropValue" where
  "labelFor speakerMapping sp =
     (if truthyProp (readProperty speakerMapping sp) then readProperty speakerMapping sp
      else StringValue ''Unknown Speaker'')"

definition labelTranscript :: "SpeakerMapping \<Rightarrow> TranscriptSegment list \<Rightarrow> LabeledTranscriptSegment list" where
  "labelTranscript speakerMapping transcript =
     map (\<lambda>segment. TranscriptSegment.extend segment
            (LabeledTranscriptSegment.fields (labelFor speakerMapping (speaker segment))))
         transcript"

text \<open>
  \<open>saveLabeledTranscript\<close> writes to this file name, next to the transcript.
\<close>

definition labeledFileName :: "string \<Rightarrow> string" where
  "labeledFileName transcriptFile = pathParseName transcriptFile @ ''_labeled.json''"

text \<open>
  The body of \<open>main\<close> once a transcript file is found: \<open>metadata\<close> and
  \<open>transcript\<close> are what the two loaders returned (the transcript at the type
  the source gives it), \<open>writeOk\<close> tells whether \<open>writeFileSync\<close> succeeds.
\<close>

datatype LabelOutcome =
    NoTranscriptFound
  | NoMetadata
  | EmptyTranscript
  | Saved string "LabeledTranscriptSegment list"
  | FailedLabeling string

definition labelSpeakersMain ::
  "(string \<times> string) option \<Rightarrow> json \<Rightarrow> TranscriptSegment list \<Rightarrow> GeminiResponse \<Rightarrow> bool \<Rightarrow> LabelOutcome" where
  "labelSpeakersMain found metadata transcript response writeOk =
     (case found of
        None \<Rightarrow> NoTranscriptFound
      | Some (transcriptFile, directory) \<Rightarrow>
          if \<not> truthy (Some metadata) then NoMetadata
          else if length transcript = 0 then EmptyTranscript
          else
            let speakerMapping = identifySpeakers transcript response;
                labeledTranscript = labelTranscript speakerMapping transcript
            in if writeOk
               then Saved (pathJoin directory (labeledFileName transcriptFile)) labeledTranscript
               else FailedLabeling (pathJoin directory ''failed_labeling.txt''))"

section \<open>Finding the next transcript to label (label-speakers.ts)\<close>

text \<open>
  A directory lists its entries in the order \<open>readdirSync\<close> returns them.
\<close>

datatype fsnode = File | Dir "(string \<times> fsnode) list"

definition existsSync :: "(string \<times> fsnode) list \<Rightarrow> string \<Rightarrow> bool" where
  "existsSync entries name = (name \<in> set (map fst entries))"

text \<open>
  The inner function \<open>findTranscript\<close>: \<open>entries\<close> is the whole directory,
  the last argument the entries the loop has not visited yet.
\<close>

fun findTranscript ::
  "string \<Rightarrow> (string \<times> fsnode) list \<Rightarrow> (string \<times> fsnode) list \<Rightarrow> (string \<times> string) option" where
  "findTranscript dir entries [] = None"
| "findTranscript dir entries ((file, Dir children) # rest) =
     (case findTranscript (pathJoin dir file) children children of
        Some result \<Rightarrow> Some result
      | None \<Rightarrow> findTranscript dir entries rest)"
| "findTranscript dir entries ((file, File) # rest) =
     (if endsWith file ''_transcript.json'' \<and> \<not> endsWith file ''_labeled.json''
      then
        (let labeledFile = replaceFirst ''_transcript.json'' ''_transcript_labeled.json'' file in
         if \<not> existsSync entries labeledFile then Some (file, dir)
         else findTranscript dir entries rest)
      else findTranscript dir entries rest)"

text \<open>
  \<open>findTranscriptFile\<close>: a data directory that is missing or not a directory
  makes \<open>readdirSync\<close> throw, which the function turns into \<open>null\<close>.
\<close>

definition findTranscriptFile :: "string \<Rightarrow> fsnode option \<Rightarrow> (string \<times> string) option" where
  "findTranscriptFile dataDir tree =
     (case tree of
        Some (Dir entries) \<Rightarrow> findTranscript dataDir entries entries
      | _ \<Rightarrow> None)"

text \<open>All directories of a tree, with their paths.\<close>

fun directories :: "string \<Rightarrow> (string \<times> fsnode) list \<Rightarrow> (string \<times> (string \<times> fsnode) list) list"
  and subdirectories :: "string \<Rightarrow> (string \<times> fsnode) list \<Rightarrow> (string \<times> (string \<times> fsnode) list) list" where
  "directories dir entries = (dir, entries) # subdirectories dir entries"
| "subdirectories dir [] = []"
| "subdirectories dir ((file, File) # rest) = subdirectories dir rest"
| "subdirectories dir ((file, Dir children) # rest) =
     directories (pathJoin dir file) children @ subdirectories dir rest"

section \<open>Transcription stage (the transcribe script with a budget)\<close>

text \<open>
  A podcast directory is the list of its entry names, in the order
  \<open>readdirSync\<close> returns them. The surroundings of the stage: what each path
  holds when \<open>loadEpisodeMetadata\<close> reads it, and whether \<open>transcribeAudio\<close>
  followed by \<open>saveTranscript\<close> completes for an enclosure URL or throws.
\<close>

record Services =
  fileAt :: "string \<Rightarrow> FileState"
  transcribes :: "json \<Rightarrow> bool"

definition isMetadataFile :: "string \<Rightarrow> bool" where
  "isMetadataFile file =
     (endsWith file ''.json'' \<and> \<not> endsWith file ''_transcript.json'' \<and>
      \<not> endsWith file ''_transcript_labeled.json'')"

definition transcriptFileName :: "string \<Rightarrow> string" where
  "transcriptFileName metadataFile = pathParseName metadataFile @ ''_transcript.json''"

definition hasExistingTranscript :: "string list \<Rightarrow> string \<Rightarrow> bool" where
  "hasExistingTranscript files metadataFile = (transcriptFileName metadataFile \<in> set files)"

text \<open>
  \<open>writeFileSync\<close> and \<open>appendFileSync\<close> create the file when it is missing.
  Appending to the failure log is taken to succeed.
\<close>

definition addFile :: "string \<Rightarrow> string list \<Rightarrow> string list" where
  "addFile name files = (if name \<in> set files then files else files @ [name])"

text \<open>
  What one call of \<open>processPodcastDirectory\<close> does: its return value, the
  directory afterwards, and every call of \<open>transcribeAudio\<close> with the metadata
  file it was made for and the directory as it was at that moment.
\<close>

record DirectoryRun =
  processed :: bool
  listing :: "string list"
  transcribeCalls :: "(string \<times> string list) list"

fun processMetadataFiles :: "Services \<Rightarrow> string \<Rightarrow> string list \<Rightarrow> string list \<Rightarrow> DirectoryRun" where
  "processMetadataFiles sv directory files [] =
     \<lparr>processed = False, listing = files, transcribeCalls = []\<rparr>"
| "processMetadataFiles sv directory files (metadataFile # rest) =
     (let metadata = snd (loadEpisodeMetadata (fileAt sv) directory metadataFile) in
      case getProp metadata ''enclosureUrl'' of
        None \<Rightarrow> processMetadataFiles sv directory files rest
      | Some url \<Rightarrow>
          if \<not> truthy (Some url) then processMetadataFiles sv directory files rest
          else if hasExistingTranscript files metadataFile
          then processMetadataFiles sv directory files rest
          else if transcribes sv url
          then \<lparr>processed = True, listing = addFile (transcriptFileName metadataFile) files,
                transcribeCalls = [(metadataFile, files)]\<rparr>
          else
            (let later = processMetadataFiles sv directory
                           (addFile ''failed_transcriptions.txt'' files) rest
             in later\<lparr>transcribeCalls := (metadataFile, files) # transcribeCalls later\<rparr>))"

definition processPodcastDirectory :: "Services \<Rightarrow> string \<Rightarrow> string list \<Rightarrow> DirectoryRun" where
  "processPodcastDirectory sv directory files =
     processMetadataFiles sv directory files (filter isMetadataFile files)"

text \<open>
  \<open>parseInt(process.argv[2]) || 1\<close>; the argument of the function is the value
  of \<open>parseInt\<close>, \<open>None\<close> for NaN (no argument, or one that does not start with
  a number).
\<close>

definition numPodcastsOf :: "int option \<Rightarrow> int" where
  "numPodcastsOf parsed = (case parsed of None \<Rightarrow> 1 | Some n \<Rightarrow> if n = 0 then 1 else n)"

datatype DirEntry = PlainFile | PodcastDirectory "string list"

text \<open>
  The loop of \<open>main\<close> from \<open>currentIndex\<close> on: the final \<open>processedCount\<close> and,
  for every entry the loop examined, its name and (for a directory) the run of
  \<open>processPodcastDirectory\<close> on it.
\<close>

fun mainLoop ::
  "Services \<Rightarrow> string \<Rightarrow> int \<Rightarrow> int \<Rightarrow> (string \<times> DirEntry) list \<Rightarrow>
   int \<times> (string \<times> DirectoryRun option) list" where
  "mainLoop sv dataDir numPodcasts processedCount [] = (processedCount, [])"
| "mainLoop sv dataDir numPodcasts processedCount ((podcastDir, entry) # rest) =
     (if processedCount < numPodcasts then
        (case entry of
           PlainFile \<Rightarrow>
             (case mainLoop sv dataDir numPodcasts processedCount rest of
                (n, examined) \<Rightarrow> (n, (podcastDir, None) # examined))
         | PodcastDirectory files \<Rightarrow>
             (let run = processPodcastDirectory sv (pathJoin dataDir podcastDir) files in
              case mainLoop sv dataDir numPodcasts
                     (if processed run then processedCount + 1 else processedCount) rest of
                (n, examined) \<Rightarrow> (n, (podcastDir, Some run) # examined)))
      else (processedCount, []))"

definition transcribeMain ::
  "Services \<Rightarrow> string \<Rightarrow> int option \<Rightarrow> (string \<times> DirEntry) list \<Rightarrow>
   int \<times> (string \<times> DirectoryRun option) list" where
  "transcribeMain sv dataDir parsed podcastDirs =
     (if length podcastDirs = 0 then (0, [])
      else mainLoop sv dataDir (numPodcastsOf parsed) 0 podcastDirs)"

text \<open>Whether an examined entry raised \<open>processedCount\<close>.\<close>

definition succeeded :: "string \<times> DirectoryRun option \<Rightarrow> bool" where
  "succeeded examined = (case snd examined of Some run \<Rightarrow> processed run | None \<Rightarrow> False)"

text \<open>What the loop computes for one entry of the data directory.\<close>

definition examine :: "Services \<Rightarrow> string \<Rightarrow> string \<times> DirEntry \<Rightarrow> string \<times> DirectoryRun option" where
  "examine sv dataDir e =
     (case snd e of
        PlainFile \<Rightarrow> (fst e, None)
      | PodcastDirectory files \<Rightarrow>
          (fst e, Some (processPodcastDirectory sv (pathJoin dataDir (fst e)) files)))"

text \<open>
  The work a directory holds. A metadata file is eligible when it passes the
  filter of \<open>processPodcastDirectory\<close>, its metadata loads with a truthy
  \<open>enclosureUrl\<close>, and its transcript is not in the directory; the work on it
  completes when, besides, the transcription of that URL succeeds.
  \<open>workable\<close> is the same test on a file that already passed the filter.
\<close>

definition enclosureUrlOf :: "Services \<Rightarrow> string \<Rightarrow> string \<Rightarrow> json option" where
  "enclosureUrlOf sv directory metadataFile =
     getProp (snd (loadEpisodeMetadata (fileAt sv) directory metadataFile)) ''enclosureUrl''"

definition eligible :: "Services \<Rightarrow> string \<Rightarrow> string list \<Rightarrow> string \<Rightarrow> bool" where
  "eligible sv directory files metadataFile =
     (isMetadataFile metadataFile \<and> truthy (enclosureUrlOf sv directory metadataFile) \<and>
      transcriptFileName metadataFile \<notin> set files)"

definition completes :: "Services \<Rightarrow> string \<Rightarrow> string list \<Rightarrow> string \<Rightarrow> bool" where
  "completes sv directory files metadataFile =
     (eligible sv directory files metadataFile \<and>
      (case enclosureUrlOf sv directory metadataFile of
         Some url \<Rightarrow> transcribes sv url
       | None \<Rightarrow> False))"

definition workable :: "Services \<Rightarrow> string \<Rightarrow> string list \<Rightarrow> string \<Rightarrow> bool" where
  "workable sv directory files metadataFile =
     (truthy (enclosureUrlOf sv directory metadataFile) \<and>
      transcriptFileName metadataFile \<notin> set files \<and>
      (case enclosureUrlOf sv directory metadataFile of
         Some url \<Rightarrow> transcribes sv url
       | None \<Rightarrow> False))"

text \<open>
  A small data directory to run the stage on. Podcasts \<open>a\<close>, \<open>b\<close>, \<open>c\<close>
  and \<open>e\<close> have one episode each, the one of \<open>a\<close> already transcribed and
  the one of \<open>e\<close> failing in the remote service; podcast \<open>d\<close> has two
  episodes.
\<close>

definition exampleServices :: Services where
  "exampleServices =
     \<lparr>fileAt = (\<lambda>p. if p \<in> set [''data/a/1.json'', ''data/b/2.json'', ''data/c/3.json'',
                                   ''data/d/4.json'', ''data/d/5.json'', ''data/e/6.json'']
                    then Holds (JObj [(''enclosureUrl'', JStr p)]) else Absent),
      transcribes = (\<lambda>url. url \<noteq> JStr ''data/e/6.json'')\<rparr>"

definition exampleDataDir :: "(string \<times> DirEntry) list" where
  "exampleDataDir =
     [(''a'', PodcastDirectory [''1.json'', ''1_transcript.json'']),
      (''notes.txt'', PlainFile),
      (''e'', PodcastDirectory [''6.json'']),
      (''b'', PodcastDirectory [''2.json'']),
      (''c'', PodcastDirectory [''3.json''])]"

definition twoEpisodes :: "(string \<times> DirEntry) list" where
  "twoEpisodes = [(''d'', PodcastDirectory [''4.json'', ''5.json''])]"

section \<open>Persistence (index.ts, insertData)\<close>

text \<open>
  An episode as \<open>validateEpisodeData\<close> admits it: the two required fields and
  the optional columns.
\<close>

record EpisodeData =
  epId :: rat
  epTitle :: string
  epFields :: "(string \<times> json) list"

record TranscriptEntry =
  entrySpeaker :: string
  entryLabeledSpeaker :: "string option"
  entryTimestampFrom :: string
  entryTimestampTo :: string
  entryContent :: string

text \<open>One element of \<open>validatedData\<close>: the episode and its transcript, if any.\<close>

type_synonym ValidatedData = "EpisodeData \<times> TranscriptEntry list option"

record EpisodeRow =
  rowId :: nat
  externalId :: string
  rowTitle :: string
  rowColumns :: "(string \<times> json) list"

record TimestampRow =
  episodeId :: nat
  rowSpeaker :: string
  rowLabeledSpeaker :: "string option"
  rowTimestampFrom :: string
  rowTimestampTo :: string
  rowContent :: string

datatype ConsoleLine =
    SkippingEpisode string
  | InsertedEpisode string
  | InsertedTimestamps nat string
  | ErrorInserting string

text \<open>The two tables, the identity sequence of the episodes table, and the console.\<close>

record Database =
  episodesTable :: "EpisodeRow list"
  episodeTimestampsTable :: "TimestampRow list"
  nextEpisodeId :: nat
  console :: "ConsoleLine list"

text \<open>
  What the store decides: \<open>String(episode.id)\<close>, and whether an insert of an
  episode or of a batch of timestamps satisfies the column constraints or
  throws. The database is taken to be reachable, so the existence query answers.
\<close>

record Store =
  idToString :: "rat \<Rightarrow> string"
  acceptsEpisode :: "EpisodeData \<Rightarrow> bool"
  acceptsTimestamps :: "TranscriptEntry list \<Rightarrow> bool"

text \<open>\<open>value || null\<close>.\<close>

definition orNull :: "json \<Rightarrow> json" where
  "orNull v = (if truthy (Some v) then v else JNull)"

definition episodeRow :: "Store \<Rightarrow> nat \<Rightarrow> EpisodeData \<Rightarrow> EpisodeRow" where
  "episodeRow st newId ep =
     \<lparr>rowId = newId, externalId = idToString st (epId ep), rowTitle = epTitle ep,
      rowColumns = map (\<lambda>(k, v). (k, orNull v)) (epFields ep)\<rparr>"

definition timestampRow :: "nat \<Rightarrow> TranscriptEntry \<Rightarrow> TimestampRow" where
  "timestampRow insertedId ts =
     \<lparr>episodeId = insertedId, rowSpeaker = entrySpeaker ts,
      rowLabeledSpeaker =
        (case entryLabeledSpeaker ts of Some l \<Rightarrow> if l = [] then None else Some l | None \<Rightarrow> None),
      rowTimestampFrom = entryTimestampFrom ts, rowTimestampTo = entryTimestampTo ts,
      rowContent = entryContent ts\<rparr>"

definition say :: "ConsoleLine \<Rightarrow> Database \<Rightarrow> Database" where
  "say line db = db\<lparr>console := console db @ [line]\<rparr>"

text \<open>The body of the loop of \<open>insertData\<close> for one element.\<close>

definition insertOne :: "Store \<Rightarrow> Database \<Rightarrow> ValidatedData \<Rightarrow> Database" where
  "insertOne st db item =
     (let ep = fst item;
          existing = filter (\<lambda>row. externalId row = idToString st (epId ep)) (episodesTable db)
      in if length existing > 0 then say (SkippingEpisode (epTitle ep)) db
         else if \<not> acceptsEpisode st ep then say (ErrorInserting (epTitle ep)) db
         else
           let insertedEpisode = episodeRow st (nextEpisodeId db) ep;
               db1 = say (InsertedEpisode (epTitle ep))
                       (db\<lparr>episodesTable := episodesTable db @ [insertedEpisode],
                           nextEpisodeId := Suc (nextEpisodeId db)\<rparr>)
           in case snd item of
                None \<Rightarrow> db1
              | Some ts \<Rightarrow>
                  if length ts > 0 then
                    (if acceptsTimestamps st ts
                     then say (InsertedTimestamps (length ts) (epTitle ep))
                            (db1\<lparr>episodeTimestampsTable :=
                                   episodeTimestampsTable db1 @
                                   map (timestampRow (rowId insertedEpisode)) ts\<rparr>)
                     else say (ErrorInserting (epTitle ep)) db1)
                  else db1)"

fun insertData :: "Store \<Rightarrow> ValidatedData list \<Rightarrow> Database \<Rightarrow> Database" where
  "insertData st [] db = db"
| "insertData st (item # rest) db = insertData st rest (insertOne st db item)"

text \<open>Whether an external id has a row in the episodes table.\<close>

definition hasRow :: "Database \<Rightarrow> string \<Rightarrow> bool" where
  "hasRow db ext = (ext \<in> set (map externalId (episodesTable db)))"

text \<open>
  An element the loop leaves the tables alone for: its episode has a row, or the
  store rejects the episode.
\<close>

definition settled :: "Store \<Rightarrow> Database \<Rightarrow> ValidatedData \<Rightarrow> bool" where
  "settled st db item = (hasRow db (idToString st (epId (fst item))) \<or> \<not> acceptsEpisode st (fst item))"

text \<open>A store and a database with one episode, to run \<open>insertData\<close> on.\<close>

definition exampleStore :: Store where
  "exampleStore =
     \<lparr>idToString = (\<lambda>x. if x = 7 then ''7'' else if x = 8 then ''8'' else ''0''),
      acceptsEpisode = (\<lambda>ep. length (epTitle ep) \<le> 255),
      acceptsTimestamps = (\<lambda>ts. list_all (\<lambda>t. length (entryTimestampFrom t) \<le> 10) ts)\<rparr>"

definition exampleDatabase :: Database where
  "exampleDatabase =
     \<lparr>episodesTable = [\<lparr>rowId = 1, externalId = ''7'', rowTitle = ''Seven'', rowColumns = []\<rparr>],
      episodeTimestampsTable = [], nextEpisodeId = 2, console = []\<rparr>"

definition exampleItems :: "ValidatedData list" where
  "exampleItems =
     [(\<lparr>epId = 7, epTitle = ''Seven'', epFields = []\<rparr>,
       Some [\<lparr>entrySpeaker = ''Speaker 0'', entryLabeledSpeaker = Some ''Host'',
               entryTimestampFrom = ''0:00'', entryTimestampTo = ''0:05'', entryContent = ''hello''\<rparr>]),
      (\<lparr>epId = 8, epTitle = ''Eight'', epFields = []\<rparr>,
       Some [\<lparr>entrySpeaker = ''Speaker 0'', entryLabeledSpeaker = None,
               entryTimestampFrom = ''0:00'', entryTimestampTo = ''0:05'', entryContent = ''hi''\<rparr>])]"

section \<open>Finding the next transcript: proofs\<close>

lemma endsWith_iff: "endsWith s p \<longleftrightarrow> (\<exists>x. s = x @ p)"
proof
  assume "endsWith s p"
  then have "s = take (length s - length p) s @ p"
    by (metis append_take_drop_id endsWith_def)
  then show "\<exists>x. s = x @ p" ..
next
  assume "\<exists>x. s = x @ p"
  then show "endsWith s p" by (auto simp: endsWith_def)
qed

lemma transcript_not_labeled:
  assumes "endsWith file ''_transcript.json''"
  shows "\<not> endsWith file ''_labeled.json''"
proof
  assume "endsWith file ''_labeled.json''"
  then obtain y where y: "file = y @ ''_labeled.json''" using endsWith_iff by blast
  from assms obtain x where x: "file = x @ ''_transcript.json''" using endsWith_iff by blast
  from x have "take 6 (rev file) = ''nosj.t''" by simp
  moreover from y have "take 6 (rev file) = ''nosj.d''" by simp
  ultimately show False by simp
qed

lemma findTranscript_sound:
  "findTranscript dir entries rest = Some (file, d) \<Longrightarrow>
   ((file, File) \<in> set rest \<and> d = dir \<and> endsWith file ''_transcript.json'' \<and>
      \<not> existsSync entries (replaceFirst ''_transcript.json'' ''_transcript_labeled.json'' file)) \<or>
   (\<exists>es. (d, es) \<in> set (subdirectories dir rest) \<and> (file, File) \<in> set es \<and>
      endsWith file ''_transcript.json'' \<and>
      \<not> existsSync es (replaceFirst ''_transcript.json'' ''_transcript_labeled.json'' file))"
proof (induction dir entries rest rule: findTranscript.induct)
  case (1 dir entries)
  then show ?case by simp
next
  case (2 dir entries f children rest)
  show ?case
  proof (cases "findTranscript (pathJoin dir f) children children")
    case None
    with "2.prems" have "findTranscript dir entries rest = Some (file, d)" by simp
    from "2.IH"(2) [OF None this] show ?thesis by auto
  next
    case (Some r)
    with "2.prems" have "findTranscript (pathJoin dir f) children children = Some (file, d)" by simp
    from "2.IH"(1) [OF this] show ?thesis by auto
  qed
next
  case (3 dir entries f rest)
  let ?labeled = "replaceFirst ''_transcript.json'' ''_transcript_labeled.json'' f"
  show ?case
  proof (cases "endsWith f ''_transcript.json'' \<and> \<not> endsWith f ''_labeled.json''")
    case False
    with "3.prems" have "findTranscript dir entries rest = Some (file, d)" by simp
    from "3.IH"(2) [OF False this] show ?thesis by auto
  next
    case True
    show ?thesis
    proof (cases "existsSync entries ?labeled")
      case False
      with True "3.prems" have "file = f" "d = dir" by (simp_all add: Let_def)
      with True False show ?thesis by simp
    next
      case ex: True
      with True "3.prems" have "findTranscript dir entries rest = Some (file, d)" by (simp add: Let_def)
      from "3.IH"(1) [OF True refl _ this] ex show ?thesis by auto
    qed
  qed
qed

lemma findTranscript_complete:
  "findTranscript dir entries rest = None \<Longrightarrow>
   (\<forall>file. (file, File) \<in> set rest \<and> endsWith file ''_transcript.json'' \<longrightarrow>
      existsSync entries (replaceFirst ''_transcript.json'' ''_transcript_labeled.json'' file)) \<and>
   (\<forall>d es file. (d, es) \<in> set (subdirectories dir rest) \<and> (file, File) \<in> set es \<and>
      endsWith file ''_transcript.json'' \<longrightarrow>
      existsSync es (replaceFirst ''_transcript.json'' ''_transcript_labeled.json'' file))"
proof (induction dir entries rest rule: findTranscript.induct)
  case (1 dir entries)
  then show ?case by simp
next
  case (2 dir entries f children rest)
  from "2.prems" have a: "findTranscript (pathJoin dir f) children children = None"
    and b: "findTranscript dir entries rest = None"
    by (auto split: option.splits)
  from "2.IH"(1) [OF a] "2.IH"(2) [OF a b] show ?case by auto
next
  case (3 dir entries f rest)
  let ?labeled = "replaceFirst ''_transcript.json'' ''_transcript_labeled.json'' f"
  show ?case
  proof (cases "endsWith f ''_transcript.json'' \<and> \<not> endsWith f ''_labeled.json''")
    case False
    with "3.prems" have "findTranscript dir entries rest = None" by simp
    from "3.IH"(2) [OF False this] False transcript_not_labeled show ?thesis by auto
  next
    case True
    with "3.prems" have ex: "existsSync entries ?labeled"
      by (auto simp: Let_def split: if_splits)
    with True "3.prems" have "findTranscript dir entries rest = None" by (simp add: Let_def)
    from "3.IH"(1) [OF True refl _ this] ex show ?thesis by auto
  qed
qed

lemma replaceFirst_clean_stem:
  "CHR ''_'' \<notin> set stem \<Longrightarrow>
   replaceFirst (CHR ''_'' # pat) rep (stem @ CHR ''_'' # pat) = stem @ rep"
  by (induction stem) (auto simp: startsWith_def)

lemma pathParseName_json: "x \<noteq> [] \<Longrightarrow> pathParseName (x @ ''.json'') = x"
  by (simp add: pathParseName_def takeWhile_append2)

text \<open>
  The search of the labelling stage, on every tree. The file it returns ends in
  \<open>_transcript.json\<close>, is a file of the returned directory, and the name the
  code derives from it (the first \<open>_transcript.json\<close> replaced by
  \<open>_transcript_labeled.json\<close>) is absent from that directory. It returns
  nothing only when every transcript file of every directory has that derived
  name present. For a transcript with an underscore-free stem, such as
  \<open>{id}_transcript.json\<close>, the derived name is the one
  \<open>saveLabeledTranscript\<close> writes.
\<close>

theorem findTranscriptFile_sound_and_complete:
  "(findTranscriptFile dataDir (Some (Dir entries)) = Some (file, d) \<longrightarrow>
      (\<exists>es. (d, es) \<in> set (directories dataDir entries) \<and> (file, File) \<in> set es \<and>
         endsWith file ''_transcript.json'' \<and>
         \<not> existsSync es (replaceFirst ''_transcript.json'' ''_transcript_labeled.json'' file))) \<and>
   (findTranscriptFile dataDir (Some (Dir entries)) = None \<longrightarrow>
      (\<forall>d es f. (d, es) \<in> set (directories dataDir entries) \<and> (f, File) \<in> set es \<and>
         endsWith f ''_transcript.json'' \<longrightarrow>
         existsSync es (replaceFirst ''_transcript.json'' ''_transcript_labeled.json'' f))) \<and>
   (CHR ''_'' \<notin> set stem \<longrightarrow>
      replaceFirst ''_transcript.json'' ''_transcript_labeled.json'' (stem @ ''_transcript.json'') =
        labeledFileName (stem @ ''_transcript.json''))"
proof -
  have 1: "findTranscriptFile dataDir (Some (Dir entries)) = Some (file, d) \<longrightarrow>
      (\<exists>es. (d, es) \<in> set (directories dataDir entries) \<and> (file, File) \<in> set es \<and>
         endsWith file ''_transcript.json'' \<and>
         \<not> existsSync es (replaceFirst ''_transcript.json'' ''_transcript_labeled.json'' file))"
    using findTranscript_sound [of dataDir entries entries "file" d]
    by (auto simp: findTranscriptFile_def)
  have 2: "findTranscriptFile dataDir (Some (Dir entries)) = None \<longrightarrow>
      (\<forall>d es f. (d, es) \<in> set (directories dataDir entries) \<and> (f, File) \<in> set es \<and>
         endsWith f ''_transcript.json'' \<longrightarrow>
         existsSync es (replaceFirst ''_transcript.json'' ''_transcript_labeled.json'' f))"
    using findTranscript_complete [of dataDir entries entries]
    by (auto simp: findTranscriptFile_def)
  have 3: "CHR ''_'' \<notin> set stem \<longrightarrow>
      replaceFirst ''_transcript.json'' ''_transcript_labeled.json'' (stem @ ''_transcript.json'') =
        labeledFileName (stem @ ''_transcript.json'')"
  proof
    assume s: "CHR ''_'' \<notin> set stem"
    have "labeledFileName (stem @ ''_transcript.json'') = stem @ ''_transcript_labeled.json''"
      using pathParseName_json [of "stem @ ''_transcript''"] by (simp add: labeledFileName_def)
    with replaceFirst_clean_stem [OF s, of "''transcript.json''" "''_transcript_labeled.json''"]
    show "replaceFirst ''_transcript.json'' ''_transcript_labeled.json'' (stem @ ''_transcript.json'') =
        labeledFileName (stem @ ''_transcript.json'')" by simp
  qed
  from 1 2 3 show ?thesis by blast
qed

text \<open>The search on a directory with one unlabeled transcript.\<close>

theorem findTranscriptFile_witness:
  "findTranscriptFile ''data''
     (Some (Dir [(''pod'', Dir [(''7.json'', File), (''7_transcript.json'', File)])])) =
     Some (''7_transcript.json'', ''data/pod'') \<and>
   (\<exists>es. (''data/pod'', es) \<in> set (directories ''data'' [(''pod'', Dir [(''7.json'', File), (''7_transcript.json'', File)])]) \<and>
      (''7_transcript.json'', File) \<in> set es \<and>
      \<not> existsSync es (labeledFileName ''7_transcript.json''))"
proof -
  let ?entries = "[(''pod'', Dir [(''7.json'', File), (''7_transcript.json'', File)])]"
  have f: "findTranscriptFile ''data'' (Some (Dir ?entries)) = Some (''7_transcript.json'', ''data/pod'')"
    by code_simp
  have s: "CHR ''_'' \<notin> set ''7''" by simp
  from findTranscriptFile_sound_and_complete [of "''data''" ?entries "''7_transcript.json''" "''data/pod''" "''7''"] f s
  show ?thesis by auto
qed

text \<open>
  C1. The claim: the labelling stage's search returns only transcript files whose
  labeled sibling does not exist, so that a stage runs again for an episode only
  after its output was deleted. The code breaks it for a transcript whose name
  holds \<open>_transcript.json\<close> twice: the sibling \<open>saveLabeledTranscript\<close>
  writes exists, the search looks for another name (only the first occurrence is
  replaced) and returns the transcript again.
\<close>

theorem C1_search_returns_labeled_transcript:
  "findTranscriptFile ''data''
     (Some (Dir [(''pod'', Dir [(''a_transcript.json.json'', File),
                               (''a_transcript.json_transcript.json'', File),
                               (''a_transcript.json_transcript_labeled.json'', File)])])) =
     Some (''a_transcript.json_transcript.json'', ''data/pod'') \<and>
   labeledFileName ''a_transcript.json_transcript.json'' = ''a_transcript.json_transcript_labeled.json'' \<and>
   existsSync [(''a_transcript.json.json'', File),
               (''a_transcript.json_transcript.json'', File),
               (''a_transcript.json_transcript_labeled.json'', File)]
     (labeledFileName ''a_transcript.json_transcript.json'') \<and>
   replaceFirst ''_transcript.json'' ''_transcript_labeled.json'' ''a_transcript.json_transcript.json'' =
     ''a_transcript_labeled.json_transcript.json''"
  by code_simp

section \<open>Reading artifacts: proofs\<close>

text \<open>
  C9 (as amended). For every directory and file name, a loader returns the same
  result for a file that exists but cannot be read or parsed as for a file that
  does not exist: \<open>null\<close> from \<open>loadEpisodeMetadata\<close>, the empty list from
  \<open>loadTranscript\<close>. The two cases differ only in the console line.
\<close>

theorem C9_missing_and_corrupt_same_result:
  assumes "fs1 (pathJoin directory file) = Absent" and "fs2 (pathJoin directory file) = Unreadable"
  shows "snd (loadEpisodeMetadata fs1 directory file) = JNull \<and>
         snd (loadEpisodeMetadata fs2 directory file) = JNull \<and>
         snd (loadTranscript fs1 directory file) = JArr [] \<and>
         snd (loadTranscript fs2 directory file) = JArr [] \<and>
         fst (loadEpisodeMetadata fs1 directory file) \<noteq> fst (loadEpisodeMetadata fs2 directory file) \<and>
         fst (loadTranscript fs1 directory file) \<noteq> fst (loadTranscript fs2 directory file)"
  using assms by (simp add: loadEpisodeMetadata_def loadTranscript_def)

text \<open>The two loaders on a missing and on an unreadable \<open>data/pod/1.json\<close>.\<close>

theorem C9_same_result_witness:
  "snd (loadEpisodeMetadata emptyDisk ''data/pod'' ''1.json'') = JNull \<and>
   snd (loadEpisodeMetadata corruptDisk ''data/pod'' ''1.json'') = JNull \<and>
   snd (loadTranscript emptyDisk ''data/pod'' ''1.json'') = JArr [] \<and>
   snd (loadTranscript corruptDisk ''data/pod'' ''1.json'') = JArr [] \<and>
   fst (loadEpisodeMetadata emptyDisk ''data/pod'' ''1.json'') \<noteq>
     fst (loadEpisodeMetadata corruptDisk ''data/pod'' ''1.json'')"
proof -
  have a: "emptyDisk (pathJoin ''data/pod'' ''1.json'') = Absent"
    by (simp add: emptyDisk_def)
  have b: "corruptDisk (pathJoin ''data/pod'' ''1.json'') = Unreadable"
    by (simp add: corruptDisk_def pathJoin_def)
  from C9_missing_and_corrupt_same_result [of emptyDisk "''data/pod''" "''1.json''" corruptDisk] a b
  show ?thesis by simp
qed

text \<open>
  C9 (as stated) fails: the claim says no missing file and malformed file are
  mapped to the same result; here a malformed metadata file and a missing one
  both give \<open>null\<close>, and a malformed and a missing transcript both give the
  empty list.
\<close>

theorem C9_reader_conflates_missing_and_corrupt:
  "corruptDisk ''data/pod/1.json'' = Unreadable \<and>
   emptyDisk ''data/pod/1.json'' = Absent \<and>
   snd (loadEpisodeMetadata corruptDisk ''data/pod'' ''1.json'') =
     snd (loadEpisodeMetadata emptyDisk ''data/pod'' ''1.json'') \<and>
   corruptDisk ''data/pod/1_transcript.json'' = Unreadable \<and>
   emptyDisk ''data/pod/1_transcript.json'' = Absent \<and>
   snd (loadTranscript corruptDisk ''data/pod'' ''1_transcript.json'') =
     snd (loadTranscript emptyDisk ''data/pod'' ''1_transcript.json'')"
  by (simp add: loadEpisodeMetadata_def loadTranscript_def pathJoin_def emptyDisk_def corruptDisk_def)

section \<open>Speaker labelling: proofs\<close>

lemma set_uniqueValues: "set (uniqueValues seen xs) = set xs - set seen"
  by (induction seen xs rule: uniqueValues.induct) auto

lemma readProperty_ensureMapped_other:
  "k \<noteq> sp \<Longrightarrow> readProperty (ensureMapped m sp) k = readProperty m k"
  by (simp add: readProperty_def ensureMapped_def)

lemma ensureMapped_other: "k \<noteq> sp \<Longrightarrow> ensureMapped m sp k = m k"
  by (simp add: ensureMapped_def)

lemma ensureMapped_twice: "ensureMapped (ensureMapped m sp) sp = ensureMapped m sp"
  by (simp add: ensureMapped_def readProperty_def)

lemma ensureMapped_at_other:
  "k \<noteq> sp \<Longrightarrow> ensureMapped (ensureMapped m sp) k k = ensureMapped m k k"
  by (simp add: ensureMapped_def readProperty_def)

lemma foldl_ensureMapped:
  "foldl ensureMapped m sps k = (if k \<in> set sps then ensureMapped m k k else m k)"
proof (induction sps arbitrary: m)
  case Nil
  show ?case by simp
next
  case (Cons sp sps)
  show ?case
  proof (cases "k = sp")
    case True
    with Cons.IH [of "ensureMapped m sp"] show ?thesis
      by (auto simp: ensureMapped_twice)
  next
    case False
    with Cons.IH [of "ensureMapped m sp"] show ?thesis
      by (auto simp: ensureMapped_at_other ensureMapped_other)
  qed
qed

lemma fallbackMapping_at:
  "fallbackMapping sps k = (if k \<in> set sps then Some ''Unknown Speaker'' else None)"
  by (induction sps) (auto simp: fallbackMapping_def)

lemma ensureMapped_at:
  "ensureMapped m k k =
     (case m k of
        Some l \<Rightarrow> if l = [] then Some ''Unknown Speaker'' else Some l
      | None \<Rightarrow> if k \<in> set objectPrototypeMembers then None else Some ''Unknown Speaker'')"
  by (simp add: ensureMapped_def readProperty_def split: option.splits)

lemma identifySpeakers_parsed:
  assumes "sp \<in> set (map speaker transcript)"
  shows "identifySpeakers transcript (Parsed m) sp =
     (case m sp of
        Some l \<Rightarrow> if l = [] then Some ''Unknown Speaker'' else Some l
      | None \<Rightarrow> if sp \<in> set objectPrototypeMembers then None else Some ''Unknown Speaker'')"
  using assms
  by (simp add: identifySpeakers_def foldl_ensureMapped set_uniqueValues ensureMapped_at
      del: set_map)

lemma identifySpeakers_failed:
  assumes "sp \<in> set (map speaker transcript)" and "\<And>m. response \<noteq> Parsed m"
  shows "identifySpeakers transcript response sp = Some ''Unknown Speaker''"
  using assms
  by (cases response) (auto simp: identifySpeakers_def fallbackMapping_at set_uniqueValues simp del: set_map)

text \<open>
  C2. The claim: for every transcript and every answer of the model, the mapping
  \<open>identifySpeakers\<close> returns gives every speaker token of the transcript a
  non-empty label. The code breaks it for the token \<open>constructor\<close> and the
  empty mapping: the truthiness test reads the inherited member, no default is
  installed, the returned mapping has no entry for the token, and \<open>main\<close>
  labels the segment with the inherited member.
\<close>

theorem C2_prototype_member_left_unmapped:
  "identifySpeakers
     [\<lparr>speaker = ''constructor'', timestampFrom = ''0:00'', timestampTo = ''0:05'', content = ''hello''\<rparr>]
     (Parsed Map.empty) ''constructor'' = None \<and>
   labelTranscript
     (identifySpeakers
        [\<lparr>speaker = ''constructor'', timestampFrom = ''0:00'', timestampTo = ''0:05'', content = ''hello''\<rparr>]
        (Parsed Map.empty))
     [\<lparr>speaker = ''constructor'', timestampFrom = ''0:00'', timestampTo = ''0:05'', content = ''hello''\<rparr>] =
   [\<lparr>speaker = ''constructor'', timestampFrom = ''0:00'', timestampTo = ''0:05'', content = ''hello'',
     labeledSpeaker = PrototypeMember\<rparr>]"
  by code_simp

text \<open>
  For every transcript and every answer of the model, every speaker token that
  does not name a member of \<open>Object.prototype\<close> gets a non-empty label:
  the model's own, or \<open>Unknown Speaker\<close>.
\<close>

theorem identifySpeakers_covers_ordinary_tokens:
  assumes "seg \<in> set transcript" and "speaker seg \<notin> set objectPrototypeMembers"
  shows "\<exists>l. identifySpeakers transcript response (speaker seg) = Some l \<and> l \<noteq> [] \<and>
             (l = ''Unknown Speaker'' \<or> (\<exists>m. response = Parsed m \<and> m (speaker seg) = Some l))"
proof -
  have s: "speaker seg \<in> set (map speaker transcript)" using assms(1) by simp
  show ?thesis
  proof (cases "\<exists>m'. response = Parsed m'")
    case True
    then obtain m' where r: "response = Parsed m'" ..
    show ?thesis
      using identifySpeakers_parsed [OF s, of m'] assms(2) r
      by (auto split: option.splits)
  next
    case False
    then have "\<And>m'. response \<noteq> Parsed m'" by blast
    from identifySpeakers_failed [OF s this] show ?thesis by simp
  qed
qed

text \<open>A model that answers with an empty label for \<open>Speaker 0\<close>.\<close>

theorem identifySpeakers_covers_witness:
  "\<exists>l. identifySpeakers
     [\<lparr>speaker = ''Speaker 0'', timestampFrom = ''0:00'', timestampTo = ''0:05'', content = ''hello''\<rparr>]
     (Parsed [''Speaker 0'' \<mapsto> '''']) ''Speaker 0'' = Some l \<and> l \<noteq> []"
proof -
  let ?seg = "\<lparr>speaker = ''Speaker 0'', timestampFrom = ''0:00'', timestampTo = ''0:05'', content = ''hello''\<rparr>"
  have "speaker ?seg \<notin> set objectPrototypeMembers" by (simp add: objectPrototypeMembers_def)
  from identifySpeakers_covers_ordinary_tokens [of ?seg "[?seg]", OF _ this]
  show ?thesis by auto
qed

lemma length_labelTranscript: "length (labelTranscript m t) = length t"
  by (simp add: labelTranscript_def)

lemma labelTranscript_nth:
  "i < length t \<Longrightarrow>
   labelTranscript m t ! i =
     \<lparr>speaker = speaker (t ! i), timestampFrom = timestampFrom (t ! i),
      timestampTo = timestampTo (t ! i), content = content (t ! i),
      labeledSpeaker = labelFor m (speaker (t ! i))\<rparr>"
  by (simp add: labelTranscript_def TranscriptSegment.defs LabeledTranscriptSegment.defs)

lemma truncate_labelTranscript:
  "map TranscriptSegment.truncate (labelTranscript m t) = t"
  by (induction t) (simp_all add: labelTranscript_def TranscriptSegment.defs LabeledTranscriptSegment.defs)

lemma labelSpeakersMain_saved:
  "labelSpeakersMain found metadata t response writeOk = Saved path labeled \<Longrightarrow>
   labeled = labelTranscript (identifySpeakers t response) t"
  by (auto simp: labelSpeakersMain_def Let_def split: option.splits prod.splits if_splits)

text \<open>
  C10. For every transcript and every speaker mapping, the labeled transcript has
  the length and the order of the input, and its segment at every index agrees
  with the input segment on speaker, timestampFrom, timestampTo and content:
  dropping the added field gives the input back. Whatever \<open>main\<close> saves is
  such a list, and \<open>main\<close> does save one when the metadata is there, the
  transcript is not empty and the write succeeds.
\<close>

theorem C10_labeling_preserves_frame:
  "length (labelTranscript m t) = length t \<and>
   map TranscriptSegment.truncate (labelTranscript m t) = t \<and>
   (\<forall>i<length t.
      speaker (labelTranscript m t ! i) = speaker (t ! i) \<and>
      timestampFrom (labelTranscript m t ! i) = timestampFrom (t ! i) \<and>
      timestampTo (labelTranscript m t ! i) = timestampTo (t ! i) \<and>
      content (labelTranscript m t ! i) = content (t ! i)) \<and>
   (labelSpeakersMain found metadata t response writeOk = Saved path labeled \<longrightarrow>
      length labeled = length t \<and> map TranscriptSegment.truncate labeled = t) \<and>
   (truthy (Some metadata) \<and> t \<noteq> [] \<and> writeOk \<longrightarrow>
      (\<exists>path. labelSpeakersMain (Some (file, dir)) metadata t response writeOk =
         Saved path (labelTranscript (identifySpeakers t response) t)))"
proof -
  have 1: "length (labelTranscript m t) = length t" by (rule length_labelTranscript)
  have 2: "\<forall>i<length t.
      speaker (labelTranscript m t ! i) = speaker (t ! i) \<and>
      timestampFrom (labelTranscript m t ! i) = timestampFrom (t ! i) \<and>
      timestampTo (labelTranscript m t ! i) = timestampTo (t ! i) \<and>
      content (labelTranscript m t ! i) = content (t ! i)"
    by (simp add: labelTranscript_nth)
  have 3: "labelSpeakersMain found metadata t response writeOk = Saved path labeled \<longrightarrow>
      length labeled = length t \<and> map TranscriptSegment.truncate labeled = t"
    using labelSpeakersMain_saved [of found metadata t response writeOk path labeled]
    by (auto simp: truncate_labelTranscript length_labelTranscript)
  have 4: "truthy (Some metadata) \<and> t \<noteq> [] \<and> writeOk \<longrightarrow>
      (\<exists>path. labelSpeakersMain (Some (file, dir)) metadata t response writeOk =
         Saved path (labelTranscript (identifySpeakers t response) t))"
    by (simp add: labelSpeakersMain_def Let_def)
  from 1 2 3 4 truncate_labelTranscript show ?thesis by blast
qed

text \<open>Two segments labeled with a mapping that knows one of the speakers.\<close>

theorem C10_frame_witness:
  "map TranscriptSegment.truncate
     (labelTranscript [''Speaker 0'' \<mapsto> ''Host'']
        [\<lparr>speaker = ''Speaker 0'', timestampFrom = ''0:00'', timestampTo = ''0:05'', content = ''hello''\<rparr>,
         \<lparr>speaker = ''Speaker 1'', timestampFrom = ''0:05'', timestampTo = ''0:09'', content = ''hi''\<rparr>]) =
     [\<lparr>speaker = ''Speaker 0'', timestampFrom = ''0:00'', timestampTo = ''0:05'', content = ''hello''\<rparr>,
      \<lparr>speaker = ''Speaker 1'', timestampFrom = ''0:05'', timestampTo = ''0:09'', content = ''hi''\<rparr>] \<and>
   (\<exists>path. labelSpeakersMain (Some (''7_transcript.json'', ''data/pod'')) (JObj [(''title'', JStr ''T'')])
       [\<lparr>speaker = ''Speaker 0'', timestampFrom = ''0:00'', timestampTo = ''0:05'', content = ''hello''\<rparr>]
       NoText True =
     Saved path (labelTranscript
       (identifySpeakers
          [\<lparr>speaker = ''Speaker 0'', timestampFrom = ''0:00'', timestampTo = ''0:05'', content = ''hello''\<rparr>] NoText)
       [\<lparr>speaker = ''Speaker 0'', timestampFrom = ''0:00'', timestampTo = ''0:05'', content = ''hello''\<rparr>]))"
proof -
  let ?s0 = "\<lparr>speaker = ''Speaker 0'', timestampFrom = ''0:00'', timestampTo = ''0:05'', content = ''hello''\<rparr>"
  let ?s1 = "\<lparr>speaker = ''Speaker 1'', timestampFrom = ''0:05'', timestampTo = ''0:09'', content = ''hi''\<rparr>"
  have h: "truthy (Some (JObj [(''title'', JStr ''T'')])) \<and> [?s0] \<noteq> [] \<and> True" by simp
  from C10_labeling_preserves_frame [of "[''Speaker 0'' \<mapsto> ''Host'']" "[?s0, ?s1]"]
  have a: "map TranscriptSegment.truncate (labelTranscript [''Speaker 0'' \<mapsto> ''Host''] [?s0, ?s1]) = [?s0, ?s1]"
    by blast
  from C10_labeling_preserves_frame [of _ "[?s0]" _ "JObj [(''title'', JStr ''T'')]" NoText True _ _ "''7_transcript.json''" "''data/pod''"] h
  have b: "\<exists>path. labelSpeakersMain (Some (''7_transcript.json'', ''data/pod'')) (JObj [(''title'', JStr ''T'')])
       [?s0] NoText True = Saved path (labelTranscript (identifySpeakers [?s0] NoText) [?s0])"
    by blast
  from a b show ?thesis by blast
qed

section \<open>The validators: proofs\<close>

lemma not_digit_colon: "\<not> isDigit (CHR '':'')"
  by (simp add: isDigit_def)

lemma splitColon_no_colon:
  "CHR '':'' \<notin> set s \<Longrightarrow> splitColon s = [s]"
  by (induction s) auto

lemma splitColon_append:
  "CHR '':'' \<notin> set m \<Longrightarrow> splitColon (m @ CHR '':'' # r) = m # splitColon r"
  by (induction m) auto

lemma digits_no_colon: "list_all isDigit m \<Longrightarrow> CHR '':'' \<notin> set m"
  using not_digit_colon by (auto simp: list_all_iff)

lemma Number_two: "isDigit a \<Longrightarrow> isDigit b \<Longrightarrow> Number [a, b] = Some (10 * digitValue a + digitValue b)"
  by (simp add: Number_def)

lemma regex_decompose:
  "timestampRegex s \<longleftrightarrow>
     (\<exists>m a b. s = m @ [CHR '':'', a, b] \<and> m \<noteq> [] \<and> list_all isDigit m \<and> isDigit a \<and> isDigit b)"
proof
  assume r: "timestampRegex s"
  let ?m = "takeWhile isDigit s"
  from r obtain c a b where d: "dropWhile isDigit s = [c, a, b]" and c: "c = CHR '':''"
    and ab: "isDigit a" "isDigit b" and m: "?m \<noteq> []"
    by (auto simp: timestampRegex_def split: list.splits)
  have "s = ?m @ dropWhile isDigit s" by simp
  with d c have "s = ?m @ [CHR '':'', a, b]" by simp
  moreover have "list_all isDigit ?m" by (simp add: list_all_iff) (meson set_takeWhileD)
  ultimately show "\<exists>m a b. s = m @ [CHR '':'', a, b] \<and> m \<noteq> [] \<and> list_all isDigit m \<and> isDigit a \<and> isDigit b"
    using m ab by blast
next
  assume "\<exists>m a b. s = m @ [CHR '':'', a, b] \<and> m \<noteq> [] \<and> list_all isDigit m \<and> isDigit a \<and> isDigit b"
  then obtain m a b where s: "s = m @ [CHR '':'', a, b]" and m: "m \<noteq> []" "list_all isDigit m"
    and ab: "isDigit a" "isDigit b" by blast
  from m(2) have all: "\<forall>x\<in>set m. isDigit x" by (simp add: list_all_iff)
  have t: "takeWhile isDigit s = m"
    using all not_digit_colon by (simp add: s takeWhile_append2)
  have d: "dropWhile isDigit s = [CHR '':'', a, b]"
    using all not_digit_colon by (simp add: s dropWhile_append2)
  show "timestampRegex s"
    using t d m ab by (simp add: timestampRegex_def)
qed

lemma spec_decompose:
  "spec_timestampAccepted s \<longleftrightarrow>
     (\<exists>m a b. s = m @ [CHR '':'', a, b] \<and> m \<noteq> [] \<and> list_all isDigit m \<and> isDigit a \<and> isDigit b
        \<and> 10 * digitValue a + digitValue b < 60)"
proof
  assume a: "spec_timestampAccepted s"
  then obtain b a c m where r: "rev s = b # a # c # m" and p: "m \<noteq> []" "list_all isDigit m"
     "c = CHR '':''" "isDigit a" "isDigit b" "10 * digitValue a + digitValue b < 60"
    by (auto simp: spec_timestampAccepted_def split: list.splits)
  from r have "s = rev (b # a # c # m)" by (metis rev_rev_ident)
  then have "s = rev m @ [CHR '':'', a, b]" using p(3) by simp
  moreover have "list_all isDigit (rev m)" using p(2) by (simp add: list_all_iff)
  ultimately show "\<exists>m a b. s = m @ [CHR '':'', a, b] \<and> m \<noteq> [] \<and> list_all isDigit m \<and> isDigit a \<and> isDigit b
        \<and> 10 * digitValue a + digitValue b < 60"
    using p by (metis rev_is_Nil_conv)
next
  assume "\<exists>m a b. s = m @ [CHR '':'', a, b] \<and> m \<noteq> [] \<and> list_all isDigit m \<and> isDigit a \<and> isDigit b
        \<and> 10 * digitValue a + digitValue b < 60"
  then obtain m a b where s: "s = m @ [CHR '':'', a, b]" and p: "m \<noteq> []" "list_all isDigit m"
    "isDigit a" "isDigit b" "10 * digitValue a + digitValue b < 60" by blast
  have "rev s = b # a # CHR '':'' # rev m" by (simp add: s)
  then show "spec_timestampAccepted s"
    using p by (simp add: spec_timestampAccepted_def list_all_iff)
qed

lemma secondsTooLarge_decomposed:
  assumes "list_all isDigit m" "isDigit a" "isDigit b"
  shows "secondsTooLarge (m @ [CHR '':'', a, b]) \<longleftrightarrow> 60 \<le> 10 * digitValue a + digitValue b"
proof -
  have nc: "CHR '':'' \<notin> set m" using assms(1) by (rule digits_no_colon)
  have ab: "CHR '':'' \<notin> set [a, b]" using assms(2,3) not_digit_colon by auto
  have "splitColon (m @ CHR '':'' # [a, b]) = [m, [a, b]]"
    using splitColon_append [OF nc] splitColon_no_colon [OF ab] by simp
  then show ?thesis
    using Number_two [OF assms(2,3)] by (simp add: secondsTooLarge_def Number_def assms(1))
qed

lemma accepted_iff:
  "timestampRegex s \<and> \<not> secondsTooLarge s \<longleftrightarrow> spec_timestampAccepted s"
proof
  assume a: "timestampRegex s \<and> \<not> secondsTooLarge s"
  then obtain m x y where s: "s = m @ [CHR '':'', x, y]" and p: "m \<noteq> []" "list_all isDigit m" "isDigit x" "isDigit y"
    using regex_decompose by blast
  from a s secondsTooLarge_decomposed [OF p(2,3,4)]
  have "10 * digitValue x + digitValue y < 60" by simp
  with s p show "spec_timestampAccepted s" using spec_decompose by blast
next
  assume "spec_timestampAccepted s"
  then obtain m x y where s: "s = m @ [CHR '':'', x, y]" and p: "m \<noteq> []" "list_all isDigit m" "isDigit x" "isDigit y"
    and lt: "10 * digitValue x + digitValue y < 60"
    using spec_decompose by blast
  have "timestampRegex s" using regex_decompose s p by blast
  moreover have "\<not> secondsTooLarge s"
    using secondsTooLarge_decomposed [OF p(2,3,4)] lt s by simp
  ultimately show "timestampRegex s \<and> \<not> secondsTooLarge s" ..
qed

lemma checkTimestamp_not_string:
  assumes "\<And>s. getProp entry field \<noteq> Some (JStr s)"
    and "checkTimestamp index field entry = Inr errs"
  shows "errs = [InvalidFormat index field (getProp entry field) entry]"
proof (cases "regexTest (getProp entry field)")
  case (Inl e)
  with assms(2) show ?thesis by (simp add: checkTimestamp_def)
next
  case (Inr b)
  show ?thesis
  proof (cases b)
    case False
    with Inr assms(2) show ?thesis by (simp add: checkTimestamp_def)
  next
    case True
    have "checkTimestamp index field entry = Inl TypeError"
    proof (cases "getProp entry field")
      case None
      with Inr True show ?thesis by (simp add: checkTimestamp_def)
    next
      case (Some x)
      with assms(1) have "\<And>s. x \<noteq> JStr s" by simp
      with Some Inr True show ?thesis by (cases x) (auto simp: checkTimestamp_def)
    qed
    with assms(2) show ?thesis by simp
  qed
qed

lemma checkTimestamp_errors:
  assumes "checkTimestamp index field entry = Inr errs"
  shows "(errs = [] \<longleftrightarrow> spec_validTimestamp (getProp entry field)) \<and>
   (\<forall>x\<in>set errs. errorIndex x = Some index)"
proof (cases "\<exists>s. getProp entry field = Some (JStr s)")
  case True
  then obtain s where s: "getProp entry field = Some (JStr s)" ..
  have "errs = (if \<not> timestampRegex s then [InvalidFormat index field (Some (JStr s)) entry]
                else if secondsTooLarge s then [SecondsTooLarge index field (Some (JStr s)) entry] else [])"
    using assms s by (auto simp: checkTimestamp_def regexTest_def Let_def split: if_splits)
  then show ?thesis
    using accepted_iff [of s] s by (auto simp: spec_validTimestamp_def)
next
  case False
  then have n: "\<And>s. getProp entry field \<noteq> Some (JStr s)" by blast
  from checkTimestamp_not_string [OF n assms]
  have "errs = [InvalidFormat index field (getProp entry field) entry]" .
  moreover have "\<not> spec_validTimestamp (getProp entry field)"
    using n by (auto simp: spec_validTimestamp_def split: option.splits json.splits)
  ultimately show ?thesis by simp
qed

lemma requiredField_errors:
  "(requiredField index field entry = [] \<longleftrightarrow> spec_nonEmptyString (getProp entry field)) \<and>
   (\<forall>x\<in>set (requiredField index field entry). errorIndex x = Some index)"
  by (auto simp: requiredField_def spec_nonEmptyString_def split: option.splits json.splits)

lemma spec_validTimestamp_nonEmpty:
  "spec_validTimestamp v \<Longrightarrow> spec_nonEmptyString v"
  by (auto simp: spec_validTimestamp_def spec_nonEmptyString_def spec_timestampAccepted_def
      split: option.splits json.splits)

lemma validateEntry_errors:
  assumes "validateEntry index entry = Inr errs"
  shows "(errs = [] \<longleftrightarrow> spec_wellFormedEntry entry) \<and> (\<forall>x\<in>set errs. errorIndex x = Some index)"
proof (cases "\<not> truthy (Some entry) \<or> \<not> typeofObject entry")
  case True
  then have "errs = [EntryNotObject index]" using assms by (simp add: validateEntry_def)
  moreover have "\<not> spec_wellFormedEntry entry"
    using True by (cases entry) (auto simp: spec_wellFormedEntry_def)
  ultimately show ?thesis by simp
next
  case False
  with assms obtain e1 e2 where
    c1: "checkTimestamp index ''timestampFrom'' entry = Inr e1" and
    c2: "checkTimestamp index ''timestampTo'' entry = Inr e2" and
    errs: "errs = (requiredField index ''speaker'' entry @
              requiredField index ''timestampFrom'' entry @
              requiredField index ''timestampTo'' entry @
              requiredField index ''content'' entry) @ e1 @ e2"
    by (auto simp: validateEntry_def Let_def split: sum.splits)
  note t1 = checkTimestamp_errors [OF c1] and t2 = checkTimestamp_errors [OF c2]
  note r = requiredField_errors [of index _ entry]
  have idx: "\<forall>x\<in>set errs. errorIndex x = Some index"
    using errs t1 t2 r by auto
  have wf: "spec_wellFormedEntry entry \<longleftrightarrow>
      spec_nonEmptyString (getProp entry ''speaker'') \<and> spec_nonEmptyString (getProp entry ''content'') \<and>
      spec_validTimestamp (getProp entry ''timestampFrom'') \<and> spec_validTimestamp (getProp entry ''timestampTo'')"
    by (cases entry) (auto simp: spec_wellFormedEntry_def spec_nonEmptyString_def spec_validTimestamp_def)
  have "errs = [] \<longleftrightarrow> spec_wellFormedEntry entry"
    unfolding wf errs using t1 t2 r spec_validTimestamp_nonEmpty by auto
  with idx show ?thesis by simp
qed

lemma validateEntries_errors:
  "validateEntries k es = Inr errs \<Longrightarrow>
   (\<forall>j<length es. \<not> spec_wellFormedEntry (es ! j) \<longrightarrow> (\<exists>x\<in>set errs. errorIndex x = Some (k + j))) \<and>
   (\<forall>x\<in>set errs. \<exists>j<length es. errorIndex x = Some (k + j) \<and> \<not> spec_wellFormedEntry (es ! j))"
proof (induction es arbitrary: k errs)
  case Nil
  then show ?case by simp
next
  case (Cons e es)
  from Cons.prems obtain e1 e2 where
    a: "validateEntry k e = Inr e1" and b: "validateEntries (Suc k) es = Inr e2" and
    errs: "errs = e1 @ e2"
    by (auto split: sum.splits)
  note h = validateEntry_errors [OF a] and ih = Cons.IH [OF b]
  have 1: "\<forall>j<length (e # es). \<not> spec_wellFormedEntry ((e # es) ! j) \<longrightarrow> (\<exists>x\<in>set errs. errorIndex x = Some (k + j))"
  proof (intro allI impI)
    fix j assume j: "j < length (e # es)" and nw: "\<not> spec_wellFormedEntry ((e # es) ! j)"
    show "\<exists>x\<in>set errs. errorIndex x = Some (k + j)"
    proof (cases j)
      case 0
      with nw h have "e1 \<noteq> []" by simp
      then obtain x where "x \<in> set e1" by (cases e1) auto
      with h 0 errs show ?thesis by auto
    next
      case (Suc j')
      with j nw ih obtain x where "x \<in> set e2" "errorIndex x = Some (Suc k + j')" by auto
      with Suc errs show ?thesis by auto
    qed
  qed
  have 2: "\<forall>x\<in>set errs. \<exists>j<length (e # es). errorIndex x = Some (k + j) \<and> \<not> spec_wellFormedEntry ((e # es) ! j)"
  proof
    fix x assume "x \<in> set errs"
    with errs consider "x \<in> set e1" | "x \<in> set e2" by auto
    then show "\<exists>j<length (e # es). errorIndex x = Some (k + j) \<and> \<not> spec_wellFormedEntry ((e # es) ! j)"
    proof cases
      case 1
      with h have "errorIndex x = Some (k + 0)" "\<not> spec_wellFormedEntry ((e # es) ! 0)" by auto
      then show ?thesis by blast
    next
      case 2
      with ih obtain j where "j < length es" "errorIndex x = Some (Suc k + j)" "\<not> spec_wellFormedEntry (es ! j)"
        by blast
      then have "Suc j < length (e # es)" "errorIndex x = Some (k + Suc j)" "\<not> spec_wellFormedEntry ((e # es) ! Suc j)"
        by auto
      then show ?thesis by blast
    qed
  qed
  from 1 2 show ?case by blast
qed

text \<open>
  C4. The claim: for every input array every element is examined, and every
  malformed entry gets a message with its index. The code breaks it when a
  timestamp is an array whose string form passes the format check: the call of
  \<open>split\<close> on it raises a TypeError in the first entry, no error list is
  returned and the second entry is never examined.
\<close>

theorem C4_validation_aborts:
  "validateTranscriptData
     (JArr [JObj [(''speaker'', JStr ''Speaker 0''), (''timestampFrom'', JArr [JStr ''1:30'']),
                  (''timestampTo'', JStr ''1:40''), (''content'', JStr ''hello'')],
            JObj [(''speaker'', JStr ''Speaker 1'')]]) = Inl TypeError \<and>
   \<not> spec_wellFormedEntry
       (JObj [(''speaker'', JStr ''Speaker 0''), (''timestampFrom'', JArr [JStr ''1:30'']),
              (''timestampTo'', JStr ''1:40''), (''content'', JStr ''hello'')]) \<and>
   \<not> spec_wellFormedEntry (JObj [(''speaker'', JStr ''Speaker 1'')])"
  by code_simp

lemma validateEntry_returns:
  assumes "plainTimestamps entry"
  shows "\<exists>errs. validateEntry index entry = Inr errs"
proof -
  have c: "\<exists>errs. checkTimestamp index field entry = Inr errs" if "plainTimestamp (getProp entry field)" for field
    using that
    by (cases "getProp entry field")
       (auto simp: checkTimestamp_def regexTest_def plainTimestamp_def Let_def split: json.splits)
  from assms c [of "''timestampFrom''"] c [of "''timestampTo''"] show ?thesis
    by (auto simp: validateEntry_def plainTimestamps_def)
qed

lemma validateEntries_returns:
  "list_all plainTimestamps es \<Longrightarrow> \<exists>errs. validateEntries k es = Inr errs"
proof (induction es arbitrary: k)
  case Nil
  show ?case by simp
next
  case (Cons e es)
  from Cons.prems validateEntry_returns [of e k] obtain e1 where "validateEntry k e = Inr e1" by auto
  moreover from Cons obtain e2 where "validateEntries (Suc k) es = Inr e2" by auto
  ultimately show ?case by simp
qed

text \<open>
  The validator returns a result whenever no timestamp field of an entry is an
  array or an object.
\<close>

theorem validateTranscriptData_returns:
  "list_all plainTimestamps entries \<Longrightarrow> \<exists>r. validateTranscriptData (JArr entries) = Inr r"
  using validateEntries_returns [of entries 0] by (auto simp: validateTranscriptData_def)

text \<open>
  Whenever the validator returns a result, every entry that is not well formed
  has an error with its index, and every error carries the index of an entry
  that is not well formed.
\<close>

theorem validateTranscriptData_complete:
  assumes "validateTranscriptData (JArr entries) = Inr r"
  shows "(\<forall>i<length entries. \<not> spec_wellFormedEntry (entries ! i) \<longrightarrow>
            (\<exists>e\<in>set (errors r). errorIndex e = Some i)) \<and>
         (\<forall>e\<in>set (errors r). \<exists>i<length entries.
            errorIndex e = Some i \<and> \<not> spec_wellFormedEntry (entries ! i))"
proof -
  from assms obtain errs where v: "validateEntries 0 entries = Inr errs" and r: "errors r = errs"
    by (auto simp: validateTranscriptData_def split: sum.splits)
  from validateEntries_errors [OF v] r show ?thesis by simp
qed

text \<open>Three entries, the first and the last malformed.\<close>

theorem validateTranscriptData_complete_witness:
  "\<exists>r. validateTranscriptData (JArr [JNum 5, segmentJson ''A'' ''1:00'' ''1:05'' ''hi'', segmentJson ''B'' ''1:75'' ''2:00'' ''yo'']) = Inr r \<and>
       (\<exists>e\<in>set (errors r). errorIndex e = Some 0) \<and> (\<exists>e\<in>set (errors r). errorIndex e = Some 2) \<and>
       \<not> (\<exists>e\<in>set (errors r). errorIndex e = Some 1)"
proof -
  let ?es = "[JNum 5, segmentJson ''A'' ''1:00'' ''1:05'' ''hi'', segmentJson ''B'' ''1:75'' ''2:00'' ''yo'']"
  have p: "list_all plainTimestamps ?es" by code_simp
  from validateTranscriptData_returns [OF p] obtain r where r: "validateTranscriptData (JArr ?es) = Inr r" ..
  have w0: "\<not> spec_wellFormedEntry (?es ! 0)" by code_simp
  have w1: "spec_wellFormedEntry (?es ! 1)" by code_simp
  have w2: "\<not> spec_wellFormedEntry (?es ! 2)" by code_simp
  note c = validateTranscriptData_complete [OF r]
  from c w0 have a: "\<exists>e\<in>set (errors r). errorIndex e = Some 0" by simp
  from c w2 have b: "\<exists>e\<in>set (errors r). errorIndex e = Some 2" by simp
  have d: "\<not> (\<exists>e\<in>set (errors r). errorIndex e = Some 1)"
  proof
    assume "\<exists>e\<in>set (errors r). errorIndex e = Some 1"
    then obtain e where "e \<in> set (errors r)" "errorIndex e = Some 1" by blast
    with c obtain i where "i < length ?es" "Some 1 = Some i" "\<not> spec_wellFormedEntry (?es ! i)" by metis
    with w1 show False by simp
  qed
  from r a b d show ?thesis by blast
qed

lemma timestampErrorAt_index: "timestampErrorAt i f x \<Longrightarrow> errorIndex x = Some i"
  by (cases x) auto

lemma checkTimestamp_kind:
  assumes "checkTimestamp index field entry = Inr errs" and "x \<in> set errs"
  shows "timestampErrorAt i f x \<longleftrightarrow> i = index \<and> f = field"
proof (cases "\<exists>s. getProp entry field = Some (JStr s)")
  case True
  then obtain s where s: "getProp entry field = Some (JStr s)" ..
  have "errs = (if \<not> timestampRegex s then [InvalidFormat index field (Some (JStr s)) entry]
                else if secondsTooLarge s then [SecondsTooLarge index field (Some (JStr s)) entry] else [])"
    using assms(1) s by (auto simp: checkTimestamp_def regexTest_def Let_def split: if_splits)
  with assms(2) show ?thesis by (auto split: if_splits)
next
  case False
  then have n: "\<And>s. getProp entry field \<noteq> Some (JStr s)" by blast
  from checkTimestamp_not_string [OF n assms(1)] assms(2) show ?thesis by auto
qed

lemma requiredField_kind: "x \<in> set (requiredField index field entry) \<Longrightarrow> \<not> timestampErrorAt i f x"
  by (auto simp: requiredField_def split: if_splits)

lemma validateEntry_timestamp:
  assumes v: "validateEntry index entry = Inr errs"
    and g: "getProp entry field = Some (JStr s)"
    and f: "field = ''timestampFrom'' \<or> field = ''timestampTo''"
  shows "(\<exists>x\<in>set errs. timestampErrorAt index field x) \<longleftrightarrow> \<not> spec_timestampAccepted s"
proof -
  from g have obj: "\<not> (\<not> truthy (Some entry) \<or> \<not> typeofObject entry)" by (cases entry) auto
  with v obtain e1 e2 where
    c1: "checkTimestamp index ''timestampFrom'' entry = Inr e1" and
    c2: "checkTimestamp index ''timestampTo'' entry = Inr e2" and
    errs: "errs = (requiredField index ''speaker'' entry @
              requiredField index ''timestampFrom'' entry @
              requiredField index ''timestampTo'' entry @
              requiredField index ''content'' entry) @ e1 @ e2"
    by (auto simp: validateEntry_def Let_def split: sum.splits)
  have r: "\<And>x g'. x \<in> set (requiredField index g' entry) \<Longrightarrow> \<not> timestampErrorAt index field x"
    by (rule requiredField_kind)
  have k1: "\<And>x. x \<in> set e1 \<Longrightarrow> timestampErrorAt index field x \<longleftrightarrow> field = ''timestampFrom''"
    using checkTimestamp_kind [OF c1] by simp
  have k2: "\<And>x. x \<in> set e2 \<Longrightarrow> timestampErrorAt index field x \<longleftrightarrow> field = ''timestampTo''"
    using checkTimestamp_kind [OF c2] by simp
  have ne: "(''timestampFrom'' :: string) \<noteq> ''timestampTo''" by simp
  from f show ?thesis
  proof
    assume ff: "field = ''timestampFrom''"
    have "(\<exists>x\<in>set errs. timestampErrorAt index field x) \<longleftrightarrow> e1 \<noteq> []"
    proof
      assume "\<exists>x\<in>set errs. timestampErrorAt index field x"
      then obtain x where x: "x \<in> set errs" "timestampErrorAt index field x" by blast
      with errs r k2 ff ne have "x \<in> set e1" by auto
      then show "e1 \<noteq> []" by auto
    next
      assume "e1 \<noteq> []"
      then obtain x where "x \<in> set e1" by (cases e1) auto
      with k1 ff errs show "\<exists>x\<in>set errs. timestampErrorAt index field x" by auto
    qed
    moreover from checkTimestamp_errors [OF c1] g ff
    have "e1 = [] \<longleftrightarrow> spec_timestampAccepted s" by (simp add: spec_validTimestamp_def)
    ultimately show ?thesis by blast
  next
    assume ft: "field = ''timestampTo''"
    have "(\<exists>x\<in>set errs. timestampErrorAt index field x) \<longleftrightarrow> e2 \<noteq> []"
    proof
      assume "\<exists>x\<in>set errs. timestampErrorAt index field x"
      then obtain x where x: "x \<in> set errs" "timestampErrorAt index field x" by blast
      with errs r k1 ft ne have "x \<in> set e2" by auto
      then show "e2 \<noteq> []" by auto
    next
      assume "e2 \<noteq> []"
      then obtain x where "x \<in> set e2" by (cases e2) auto
      with k2 ft errs show "\<exists>x\<in>set errs. timestampErrorAt index field x" by auto
    qed
    moreover from checkTimestamp_errors [OF c2] g ft
    have "e2 = [] \<longleftrightarrow> spec_timestampAccepted s" by (simp add: spec_validTimestamp_def)
    ultimately show ?thesis by blast
  qed
qed

lemma validateEntries_entry:
  "validateEntries k es = Inr errs \<Longrightarrow> j < length es \<Longrightarrow>
   \<exists>ej. validateEntry (k + j) (es ! j) = Inr ej \<and>
        (\<forall>x. x \<in> set ej \<longleftrightarrow> x \<in> set errs \<and> errorIndex x = Some (k + j))"
proof (induction es arbitrary: k errs j)
  case Nil
  then show ?case by simp
next
  case (Cons e es)
  from Cons.prems(1) obtain e1 e2 where
    a: "validateEntry k e = Inr e1" and b: "validateEntries (Suc k) es = Inr e2" and
    errs: "errs = e1 @ e2"
    by (auto split: sum.splits)
  have i1: "\<forall>x\<in>set e1. errorIndex x = Some k" using validateEntry_errors [OF a] by simp
  have i2: "\<forall>x\<in>set e2. \<exists>j'. errorIndex x = Some (Suc k + j')"
    using validateEntries_errors [OF b] by blast
  show ?case
  proof (cases j)
    case 0
    have "\<forall>x. x \<in> set e1 \<longleftrightarrow> x \<in> set errs \<and> errorIndex x = Some (k + 0)"
      using errs i1 i2 by auto
    with a 0 show ?thesis by auto
  next
    case (Suc j')
    with Cons.prems(2) have "j' < length es" by simp
    from Cons.IH [OF b this] obtain ej where
      v: "validateEntry (Suc k + j') (es ! j') = Inr ej" and
      m: "\<forall>x. x \<in> set ej \<longleftrightarrow> x \<in> set e2 \<and> errorIndex x = Some (Suc k + j')" by blast
    have "\<forall>x. x \<in> set ej \<longleftrightarrow> x \<in> set errs \<and> errorIndex x = Some (k + Suc j')"
      using m errs i1 by auto
    with v Suc show ?thesis by auto
  qed
qed

lemma validateTranscriptData_timestamp:
  assumes r: "validateTranscriptData (JArr entries) = Inr r"
    and i: "i < length entries"
    and g: "getProp (entries ! i) field = Some (JStr s)"
    and f: "field = ''timestampFrom'' \<or> field = ''timestampTo''"
  shows "(\<exists>x\<in>set (errors r). timestampErrorAt i field x) \<longleftrightarrow> \<not> spec_timestampAccepted s"
proof -
  from r obtain errs where v: "validateEntries 0 entries = Inr errs" and e: "errors r = errs"
    by (auto simp: validateTranscriptData_def split: sum.splits)
  from validateEntries_entry [OF v i] obtain ej where
    ve: "validateEntry i (entries ! i) = Inr ej" and
    m: "\<forall>x. x \<in> set ej \<longleftrightarrow> x \<in> set errs \<and> errorIndex x = Some i" by auto
  have "(\<exists>x\<in>set errs. timestampErrorAt i field x) \<longleftrightarrow> (\<exists>x\<in>set ej. timestampErrorAt i field x)"
    using m timestampErrorAt_index by blast
  with validateEntry_timestamp [OF ve g f] e show ?thesis by simp
qed

lemma validateTranscriptData_valid_iff:
  assumes r: "validateTranscriptData (JArr entries) = Inr r"
  shows "isValid r \<longleftrightarrow> list_all spec_wellFormedEntry entries"
proof -
  from r obtain errs where v: "validateEntries 0 entries = Inr errs" and e: "errors r = errs"
    and iv: "isValid r = (errs = [])"
    by (auto simp: validateTranscriptData_def split: sum.splits)
  note c = validateEntries_errors [OF v]
  show ?thesis
  proof
    assume "isValid r"
    with iv have "errs = []" by simp
    with c have "\<forall>j<length entries. spec_wellFormedEntry (entries ! j)" by auto
    then show "list_all spec_wellFormedEntry entries" by (simp add: list_all_length)
  next
    assume "list_all spec_wellFormedEntry entries"
    then have w: "\<forall>j<length entries. spec_wellFormedEntry (entries ! j)" by (simp add: list_all_length)
    have "errs = []"
    proof (cases errs)
      case Nil
      then show ?thesis .
    next
      case (Cons x xs)
      then have "x \<in> set errs" by simp
      with c w show ?thesis by blast
    qed
    with iv show "isValid r" by simp
  qed
qed

text \<open>
  C3. For every array on which \<open>validateTranscriptData\<close> returns (it does
  whenever no timestamp field is an array or an object), at every index and for
  each of the two timestamp fields that holds a string: a timestamp error is
  reported for that entry and field exactly when the string is not one or more
  digits, a colon and exactly two digits that form a number below 60. The
  transcript as a whole is accepted exactly when every entry is well formed,
  which includes both of its timestamps being of that shape.
\<close>

theorem C3_timestamp_accepted_iff:
  "(list_all plainTimestamps entries \<longrightarrow> (\<exists>r. validateTranscriptData (JArr entries) = Inr r)) \<and>
   (validateTranscriptData (JArr entries) = Inr r \<longrightarrow>
      (isValid r \<longleftrightarrow> list_all spec_wellFormedEntry entries) \<and>
      (\<forall>i s. i < length entries \<and> getProp (entries ! i) ''timestampFrom'' = Some (JStr s) \<longrightarrow>
         ((\<exists>x\<in>set (errors r). timestampErrorAt i ''timestampFrom'' x) \<longleftrightarrow>
            \<not> spec_timestampAccepted s)) \<and>
      (\<forall>i s. i < length entries \<and> getProp (entries ! i) ''timestampTo'' = Some (JStr s) \<longrightarrow>
         ((\<exists>x\<in>set (errors r). timestampErrorAt i ''timestampTo'' x) \<longleftrightarrow>
            \<not> spec_timestampAccepted s)))"
proof -
  have a: "list_all plainTimestamps entries \<longrightarrow> (\<exists>r. validateTranscriptData (JArr entries) = Inr r)"
    using validateTranscriptData_returns by blast
  have b: "validateTranscriptData (JArr entries) = Inr r \<longrightarrow>
      (isValid r \<longleftrightarrow> list_all spec_wellFormedEntry entries) \<and>
      (\<forall>i s. i < length entries \<and> getProp (entries ! i) ''timestampFrom'' = Some (JStr s) \<longrightarrow>
         ((\<exists>x\<in>set (errors r). timestampErrorAt i ''timestampFrom'' x) \<longleftrightarrow>
            \<not> spec_timestampAccepted s)) \<and>
      (\<forall>i s. i < length entries \<and> getProp (entries ! i) ''timestampTo'' = Some (JStr s) \<longrightarrow>
         ((\<exists>x\<in>set (errors r). timestampErrorAt i ''timestampTo'' x) \<longleftrightarrow>
            \<not> spec_timestampAccepted s))"
  proof
    assume r: "validateTranscriptData (JArr entries) = Inr r"
    have 1: "isValid r \<longleftrightarrow> list_all spec_wellFormedEntry entries"
      by (rule validateTranscriptData_valid_iff [OF r])
    have 2: "\<forall>i s. i < length entries \<and> getProp (entries ! i) ''timestampFrom'' = Some (JStr s) \<longrightarrow>
         ((\<exists>x\<in>set (errors r). timestampErrorAt i ''timestampFrom'' x) \<longleftrightarrow>
            \<not> spec_timestampAccepted s)"
      using validateTranscriptData_timestamp [OF r] by blast
    have 3: "\<forall>i s. i < length entries \<and> getProp (entries ! i) ''timestampTo'' = Some (JStr s) \<longrightarrow>
         ((\<exists>x\<in>set (errors r). timestampErrorAt i ''timestampTo'' x) \<longleftrightarrow>
            \<not> spec_timestampAccepted s)"
      using validateTranscriptData_timestamp [OF r] by blast
    from 1 2 3 show "(isValid r \<longleftrightarrow> list_all spec_wellFormedEntry entries) \<and>
      (\<forall>i s. i < length entries \<and> getProp (entries ! i) ''timestampFrom'' = Some (JStr s) \<longrightarrow>
         ((\<exists>x\<in>set (errors r). timestampErrorAt i ''timestampFrom'' x) \<longleftrightarrow>
            \<not> spec_timestampAccepted s)) \<and>
      (\<forall>i s. i < length entries \<and> getProp (entries ! i) ''timestampTo'' = Some (JStr s) \<longrightarrow>
         ((\<exists>x\<in>set (errors r). timestampErrorAt i ''timestampTo'' x) \<longleftrightarrow>
            \<not> spec_timestampAccepted s))" by blast
  qed
  from a b show ?thesis ..
qed

text \<open>
  The boundary, in a transcript of two entries: \<open>5:00\<close> and \<open>119:59\<close> in
  the first entry are accepted, \<open>12:60\<close> in the second entry is rejected and
  makes the transcript invalid, \<open>13:00\<close> next to it is accepted; the first
  entry alone is a valid transcript.
\<close>

theorem C3_timestamp_boundary_witness:
  "(\<exists>r. validateTranscriptData
          (JArr [segmentJson ''Speaker 0'' ''5:00'' ''119:59'' ''hello'',
                 segmentJson ''Speaker 1'' ''12:60'' ''13:00'' ''hi'']) = Inr r \<and>
        \<not> isValid r \<and>
        \<not> (\<exists>x\<in>set (errors r). timestampErrorAt 0 ''timestampFrom'' x) \<and>
        \<not> (\<exists>x\<in>set (errors r). timestampErrorAt 0 ''timestampTo'' x) \<and>
        (\<exists>x\<in>set (errors r). timestampErrorAt 1 ''timestampFrom'' x) \<and>
        \<not> (\<exists>x\<in>set (errors r). timestampErrorAt 1 ''timestampTo'' x)) \<and>
   (\<exists>r. validateTranscriptData (JArr [segmentJson ''Speaker 0'' ''5:00'' ''119:59'' ''hello'']) = Inr r \<and>
        isValid r)"
proof -
  let ?e0 = "segmentJson ''Speaker 0'' ''5:00'' ''119:59'' ''hello''"
  let ?e1 = "segmentJson ''Speaker 1'' ''12:60'' ''13:00'' ''hi''"
  have a: "spec_timestampAccepted ''5:00''" "spec_timestampAccepted ''119:59''"
    "\<not> spec_timestampAccepted ''12:60''" "spec_timestampAccepted ''13:00''"
    by code_simp+
  have p2: "list_all plainTimestamps [?e0, ?e1]" by code_simp
  have p1: "list_all plainTimestamps [?e0]" by code_simp
  have w2: "\<not> list_all spec_wellFormedEntry [?e0, ?e1]" by code_simp
  have w1: "list_all spec_wellFormedEntry [?e0]" by code_simp
  have g: "getProp ([?e0, ?e1] ! 0) ''timestampFrom'' = Some (JStr ''5:00'')"
    "getProp ([?e0, ?e1] ! 0) ''timestampTo'' = Some (JStr ''119:59'')"
    "getProp ([?e0, ?e1] ! 1) ''timestampFrom'' = Some (JStr ''12:60'')"
    "getProp ([?e0, ?e1] ! 1) ''timestampTo'' = Some (JStr ''13:00'')"
    by (simp_all add: segmentJson_def)
  from C3_timestamp_accepted_iff [of "[?e0, ?e1]"] p2 obtain r2 where
    r2: "validateTranscriptData (JArr [?e0, ?e1]) = Inr r2" by blast
  note t = C3_timestamp_accepted_iff [of "[?e0, ?e1]" r2]
  from t r2 w2 have v: "\<not> isValid r2" by blast
  from t r2 have f: "\<And>i s. i < length [?e0, ?e1] \<Longrightarrow>
      getProp ([?e0, ?e1] ! i) ''timestampFrom'' = Some (JStr s) \<Longrightarrow>
      (\<exists>x\<in>set (errors r2). timestampErrorAt i ''timestampFrom'' x) \<longleftrightarrow> \<not> spec_timestampAccepted s"
    by blast
  from t r2 have o: "\<And>i s. i < length [?e0, ?e1] \<Longrightarrow>
      getProp ([?e0, ?e1] ! i) ''timestampTo'' = Some (JStr s) \<Longrightarrow>
      (\<exists>x\<in>set (errors r2). timestampErrorAt i ''timestampTo'' x) \<longleftrightarrow> \<not> spec_timestampAccepted s"
    by blast
  have f0: "\<not> (\<exists>x\<in>set (errors r2). timestampErrorAt 0 ''timestampFrom'' x)"
    using f [of 0, OF _ g(1)] a by simp
  have o0: "\<not> (\<exists>x\<in>set (errors r2). timestampErrorAt 0 ''timestampTo'' x)"
    using o [of 0, OF _ g(2)] a by simp
  have f1: "\<exists>x\<in>set (errors r2). timestampErrorAt 1 ''timestampFrom'' x"
    using f [of 1, OF _ g(3)] a by simp
  have o1: "\<not> (\<exists>x\<in>set (errors r2). timestampErrorAt 1 ''timestampTo'' x)"
    using o [of 1, OF _ g(4)] a by simp
  from C3_timestamp_accepted_iff [of "[?e0]"] p1 obtain r1 where
    r1: "validateTranscriptData (JArr [?e0]) = Inr r1" by blast
  from C3_timestamp_accepted_iff [of "[?e0]" r1] r1 w1 have v1: "isValid r1" by blast
  from r2 v f0 o0 f1 o1 r1 v1 show ?thesis by blast
qed

lemma requiredNumber_iff:
  "requiredNumber raw f m = (if isNonZeroNumber (getProp raw f) then [] else [m])"
  by (auto simp: requiredNumber_def isNonZeroNumber_def split: option.splits json.splits)

lemma requiredString_iff:
  "requiredString raw f m = (if spec_nonEmptyString (getProp raw f) then [] else [m])"
  by (auto simp: requiredString_def spec_nonEmptyString_def split: option.splits json.splits)

lemma optionalNumber_iff:
  "optionalNumber raw f m = (if isFalsyOrNumber (getProp raw f) then [] else [m])"
  by (auto simp: optionalNumber_def isFalsyOrNumber_def split: option.splits json.splits)

text \<open>
  C6 (as amended). For every raw JSON object, the error list holds one message
  for each violated requirement, in the order of the checks, and validation
  succeeds exactly when \<open>id\<close> is a non-zero number, \<open>title\<close> is a non-empty
  string, and each of \<open>datePublished\<close>, \<open>dateCrawled\<close>, \<open>duration\<close>,
  \<open>episode\<close> is absent, falsy or a number.
\<close>

theorem C6_validateEpisode_characterised:
  "errors (validateEpisodeData (JObj kvs)) =
     (if isNonZeroNumber (map_of kvs ''id'') then []
      else [''Missing or invalid id (must be a number)'']) @
     (if spec_nonEmptyString (map_of kvs ''title'') then []
      else [''Missing or invalid title (must be a string)'']) @
     (if isFalsyOrNumber (map_of kvs ''datePublished'') then []
      else [''Invalid datePublished (must be a number)'']) @
     (if isFalsyOrNumber (map_of kvs ''dateCrawled'') then []
      else [''Invalid dateCrawled (must be a number)'']) @
     (if isFalsyOrNumber (map_of kvs ''duration'') then []
      else [''Invalid duration (must be a number)'']) @
     (if isFalsyOrNumber (map_of kvs ''episode'') then []
      else [''Invalid episode (must be a number)'']) \<and>
   (isValid (validateEpisodeData (JObj kvs)) \<longleftrightarrow>
      isNonZeroNumber (map_of kvs ''id'') \<and> spec_nonEmptyString (map_of kvs ''title'') \<and>
      isFalsyOrNumber (map_of kvs ''datePublished'') \<and>
      isFalsyOrNumber (map_of kvs ''dateCrawled'') \<and>
      isFalsyOrNumber (map_of kvs ''duration'') \<and>
      isFalsyOrNumber (map_of kvs ''episode'')) \<and>
   (isValid (validateEpisodeData (JObj kvs)) \<longleftrightarrow> errors (validateEpisodeData (JObj kvs)) = []) \<and>
   data (validateEpisodeData (JObj kvs)) =
     (if isValid (validateEpisodeData (JObj kvs)) then Some (JObj kvs) else None)"
  by (simp add: validateEpisodeData_def episodeErrors_def requiredNumber_iff requiredString_iff
      optionalNumber_iff Let_def)

text \<open>An object that violates three requirements at once.\<close>

theorem C6_validateEpisode_witness:
  "errors (validateEpisodeData (JObj [(''id'', JStr ''7''), (''duration'', JStr ''90''), (''episode'', JNum 3)])) =
     [''Missing or invalid id (must be a number)'', ''Missing or invalid title (must be a string)'',
      ''Invalid duration (must be a number)''] \<and>
   \<not> isValid (validateEpisodeData (JObj [(''id'', JStr ''7''), (''duration'', JStr ''90''), (''episode'', JNum 3)]))"
proof -
  let ?kvs = "[(''id'', JStr ''7''), (''duration'', JStr ''90''), (''episode'', JNum 3)]"
  have "\<not> isNonZeroNumber (map_of ?kvs ''id'')" "\<not> spec_nonEmptyString (map_of ?kvs ''title'')"
    "isFalsyOrNumber (map_of ?kvs ''datePublished'')" "isFalsyOrNumber (map_of ?kvs ''dateCrawled'')"
    "\<not> isFalsyOrNumber (map_of ?kvs ''duration'')" "isFalsyOrNumber (map_of ?kvs ''episode'')"
    by (simp_all add: isNonZeroNumber_def spec_nonEmptyString_def isFalsyOrNumber_def)
  with C6_validateEpisode_characterised [of ?kvs] show ?thesis by simp
qed

lemma three_halves_not_int: "(3 / 2 :: rat) \<notin> \<int>"
proof
  assume "(3 / 2 :: rat) \<in> \<int>"
  then obtain z :: int where "(3 / 2 :: rat) = of_int z" by (auto elim: Ints_cases)
  then have "(of_int (2 * z) :: rat) = of_int 3" by simp
  then have "2 * z = 3" by (simp only: of_int_eq_iff)
  then show False by presburger
qed

text \<open>
  C6 (as stated) fails: the claim asks for an integer \<open>id\<close> and for numeric
  optional fields when present. An \<open>id\<close> of 1.5 is accepted, the integer 0 is
  rejected, and an empty string for \<open>duration\<close> and \<open>false\<close> for \<open>episode\<close>
  are accepted.
\<close>

theorem C6_not_integer_and_falsy:
  "isValid (validateEpisodeData (JObj [(''id'', JNum (3 / 2)), (''title'', JStr ''t'')])) \<and>
   (3 / 2 :: rat) \<notin> \<int> \<and>
   \<not> isValid (validateEpisodeData (JObj [(''id'', JNum 0), (''title'', JStr ''t'')])) \<and>
   (0 :: rat) \<in> \<int> \<and>
   isValid (validateEpisodeData
     (JObj [(''id'', JNum 7), (''title'', JStr ''t''), (''duration'', JStr ''''), (''episode'', JBool False)]))"
proof -
  have "isValid (validateEpisodeData (JObj [(''id'', JNum (3 / 2)), (''title'', JStr ''t'')]))"
    by code_simp
  moreover have "\<not> isValid (validateEpisodeData (JObj [(''id'', JNum 0), (''title'', JStr ''t'')]))"
    by code_simp
  moreover have "isValid (validateEpisodeData
     (JObj [(''id'', JNum 7), (''title'', JStr ''t''), (''duration'', JStr ''''), (''episode'', JBool False)]))"
    by code_simp
  ultimately show ?thesis using three_halves_not_int by simp
qed

section \<open>Transcription stage: proofs\<close>

lemma set_addFile: "set (addFile name files) = insert name (set files)"
  by (auto simp: addFile_def)

lemma processMetadataFiles_calls:
  "(m, fs) \<in> set (transcribeCalls (processMetadataFiles sv dir files ms)) \<Longrightarrow>
   m \<in> set ms \<and> \<not> hasExistingTranscript fs m \<and> set files \<subseteq> set fs"
proof (induction ms arbitrary: files)
  case Nil
  then show ?case by simp
next
  case (Cons x ms)
  let ?metadata = "snd (loadEpisodeMetadata (fileAt sv) dir x)"
  show ?case
  proof (cases "getProp ?metadata ''enclosureUrl''")
    case None
    with Cons.prems have "(m, fs) \<in> set (transcribeCalls (processMetadataFiles sv dir files ms))"
      by simp
    from Cons.IH [OF this] show ?thesis by simp
  next
    case (Some url)
    show ?thesis
    proof (cases "\<not> truthy (Some url) \<or> hasExistingTranscript files x")
      case True
      with Some Cons.prems have "(m, fs) \<in> set (transcribeCalls (processMetadataFiles sv dir files ms))"
        by (auto split: if_splits)
      from Cons.IH [OF this] show ?thesis by simp
    next
      case False
      show ?thesis
      proof (cases "transcribes sv url")
        case True
        with Some False Cons.prems have "m = x" "fs = files" by simp_all
        with False show ?thesis by simp
      next
        case nok: False
        with Some False Cons.prems
        consider "m = x \<and> fs = files"
          | "(m, fs) \<in> set (transcribeCalls (processMetadataFiles sv dir
                (addFile ''failed_transcriptions.txt'' files) ms))"
          by (auto simp: Let_def)
        then show ?thesis
        proof cases
          case 1
          with False show ?thesis by simp
        next
          case 2
          from Cons.IH [OF 2] show ?thesis by (auto simp: set_addFile)
        qed
      qed
    qed
  qed
qed

text \<open>
  \<open>processPodcastDirectory\<close> calls \<open>transcribeAudio\<close> only for a metadata file
  of the directory whose transcript exists neither when the directory is read
  nor at the moment of the call.
\<close>

theorem transcription_skips_existing_transcripts:
  assumes "(m, fs) \<in> set (transcribeCalls (processPodcastDirectory sv dir files))"
  shows "m \<in> set files \<and> isMetadataFile m \<and>
         transcriptFileName m \<notin> set fs \<and> transcriptFileName m \<notin> set files"
  using processMetadataFiles_calls [OF assms [unfolded processPodcastDirectory_def]]
  by (auto simp: hasExistingTranscript_def)

lemma processMetadataFiles_outcome:
  "(processed (processMetadataFiles sv dir files ms) \<longrightarrow>
      (\<exists>m fs. transcribeCalls (processMetadataFiles sv dir files ms) \<noteq> [] \<and>
         last (transcribeCalls (processMetadataFiles sv dir files ms)) = (m, fs) \<and>
         listing (processMetadataFiles sv dir files ms) = addFile (transcriptFileName m) fs)) \<and>
   (\<not> processed (processMetadataFiles sv dir files ms) \<longrightarrow>
      set (listing (processMetadataFiles sv dir files ms)) \<subseteq>
        insert ''failed_transcriptions.txt'' (set files))"
proof (induction ms arbitrary: files)
  case Nil
  show ?case by auto
next
  case (Cons x ms)
  let ?failed = "addFile ''failed_transcriptions.txt'' files"
  from Cons.IH [of files] Cons.IH [of ?failed] show ?case
    by (auto simp: Let_def set_addFile split: option.splits)
qed

text \<open>
  A directory that was processed had its last call of \<open>transcribeAudio\<close>
  succeed and got that episode's transcript; a directory that was not processed
  got no file but, possibly, the failure log.
\<close>

theorem processPodcastDirectory_outcome:
  "(processed (processPodcastDirectory sv dir files) \<longrightarrow>
      (\<exists>m fs. transcribeCalls (processPodcastDirectory sv dir files) \<noteq> [] \<and>
         last (transcribeCalls (processPodcastDirectory sv dir files)) = (m, fs) \<and>
         listing (processPodcastDirectory sv dir files) = addFile (transcriptFileName m) fs)) \<and>
   (\<not> processed (processPodcastDirectory sv dir files) \<longrightarrow>
      set (listing (processPodcastDirectory sv dir files)) \<subseteq>
        insert ''failed_transcriptions.txt'' (set files))"
  unfolding processPodcastDirectory_def by (rule processMetadataFiles_outcome)

lemma transcriptFileName_not_log: "transcriptFileName m \<noteq> ''failed_transcriptions.txt''"
proof
  assume "transcriptFileName m = ''failed_transcriptions.txt''"
  then have "last (pathParseName m @ ''_transcript.json'') = last ''failed_transcriptions.txt''"
    by (simp add: transcriptFileName_def)
  then show False by simp
qed

lemma workable_log:
  "workable sv dir (addFile ''failed_transcriptions.txt'' files) m = workable sv dir files m"
  using transcriptFileName_not_log [of m] by (auto simp: workable_def set_addFile)

lemma processMetadataFiles_step:
  "processMetadataFiles sv dir files (m # ms) =
     (if workable sv dir files m
      then \<lparr>processed = True, listing = addFile (transcriptFileName m) files,
            transcribeCalls = [(m, files)]\<rparr>
      else if truthy (enclosureUrlOf sv dir m) \<and> transcriptFileName m \<notin> set files
      then (processMetadataFiles sv dir (addFile ''failed_transcriptions.txt'' files) ms)
             \<lparr>transcribeCalls := (m, files) #
                transcribeCalls (processMetadataFiles sv dir (addFile ''failed_transcriptions.txt'' files) ms)\<rparr>
      else processMetadataFiles sv dir files ms)"
  by (cases "enclosureUrlOf sv dir m")
     (auto simp: workable_def enclosureUrlOf_def hasExistingTranscript_def Let_def)

lemma processMetadataFiles_processed:
  "(processed (processMetadataFiles sv dir files ms) \<longleftrightarrow> (\<exists>m\<in>set ms. workable sv dir files m)) \<and>
   (processed (processMetadataFiles sv dir files ms) \<longrightarrow>
      (\<exists>m\<in>set ms. workable sv dir files m \<and>
         insert (transcriptFileName m) (set files) \<subseteq> set (listing (processMetadataFiles sv dir files ms)) \<and>
         set (listing (processMetadataFiles sv dir files ms)) \<subseteq>
           insert (transcriptFileName m) (insert ''failed_transcriptions.txt'' (set files)))) \<and>
   (\<not> processed (processMetadataFiles sv dir files ms) \<longrightarrow>
      set (listing (processMetadataFiles sv dir files ms)) \<subseteq>
        insert ''failed_transcriptions.txt'' (set files))"
proof (induction ms arbitrary: files)
  case Nil
  show ?case by auto
next
  case (Cons x ms)
  let ?log = "addFile ''failed_transcriptions.txt'' files"
  show ?case
  proof (cases "workable sv dir files x")
    case True
    then show ?thesis by (auto simp: processMetadataFiles_step set_addFile simp del: processMetadataFiles.simps)
  next
    case False
    show ?thesis
    proof (cases "truthy (enclosureUrlOf sv dir x) \<and> transcriptFileName x \<notin> set files")
      case True
      have s: "processed (processMetadataFiles sv dir files (x # ms)) =
                 processed (processMetadataFiles sv dir ?log ms)"
          "listing (processMetadataFiles sv dir files (x # ms)) =
                 listing (processMetadataFiles sv dir ?log ms)"
        using True False by (simp_all add: processMetadataFiles_step del: processMetadataFiles.simps)
      from Cons.IH [of ?log] False show ?thesis
        unfolding s by (auto simp: workable_log set_addFile)
    next
      case neither: False
      have s: "processMetadataFiles sv dir files (x # ms) = processMetadataFiles sv dir files ms"
        using neither False by (auto simp: processMetadataFiles_step simp del: processMetadataFiles.simps)
      from Cons.IH [of files] False show ?thesis
        unfolding s by auto
    qed
  qed
qed

lemma processPodcastDirectory_processed:
  "(processed (processPodcastDirectory sv dir files) \<longleftrightarrow> (\<exists>m\<in>set files. completes sv dir files m)) \<and>
   (processed (processPodcastDirectory sv dir files) \<longrightarrow>
      (\<exists>m\<in>set files. completes sv dir files m \<and>
         insert (transcriptFileName m) (set files) \<subseteq> set (listing (processPodcastDirectory sv dir files)) \<and>
         set (listing (processPodcastDirectory sv dir files)) \<subseteq>
           insert (transcriptFileName m) (insert ''failed_transcriptions.txt'' (set files)))) \<and>
   (\<not> processed (processPodcastDirectory sv dir files) \<longrightarrow>
      set (listing (processPodcastDirectory sv dir files)) \<subseteq>
        insert ''failed_transcriptions.txt'' (set files))"
proof -
  have w: "m \<in> set (filter isMetadataFile files) \<and> workable sv dir files m \<longleftrightarrow>
           m \<in> set files \<and> completes sv dir files m" for m
    by (auto simp: workable_def completes_def eligible_def)
  from processMetadataFiles_processed [of sv dir files "filter isMetadataFile files"] w
  show ?thesis unfolding processPodcastDirectory_def by blast
qed

lemma succeeded_examine:
  "succeeded (examine sv d e) \<longleftrightarrow>
     (\<exists>files. snd e = PodcastDirectory files \<and>
        (\<exists>m\<in>set files. completes sv (pathJoin d (fst e)) files m))"
  using processPodcastDirectory_processed
  by (cases "snd e") (auto simp: succeeded_def examine_def)

lemma mainLoop_step:
  "mainLoop sv d N c (e # rest) =
     (if c < N then
        (case mainLoop sv d N (if succeeded (examine sv d e) then c + 1 else c) rest of
           (n, examined) \<Rightarrow> (n, examine sv d e # examined))
      else (c, []))"
  by (cases e; cases "snd e")
     (auto simp: succeeded_def examine_def Let_def split: prod.splits)

lemma mainLoop_spec:
  "mainLoop sv d N c es = (n, examined) \<Longrightarrow>
   examined = map (examine sv d) (take (length examined) es) \<and>
   n = c + int (length (filter succeeded examined)) \<and>
   (N \<le> n \<or> length examined = length es) \<and>
   (\<forall>j<length examined. c + int (length (filter succeeded (take j examined))) < N)"
proof (induction es arbitrary: c n examined)
  case Nil
  then show ?case by simp
next
  case (Cons e es)
  show ?case
  proof (cases "c < N")
    case False
    with Cons.prems have "n = c" "examined = []" by (simp_all add: mainLoop_step)
    with False show ?thesis by simp
  next
    case True
    let ?x = "examine sv d e"
    let ?c = "if succeeded ?x then c + 1 else c"
    obtain n' ex' where r: "mainLoop sv d N ?c es = (n', ex')" by (cases "mainLoop sv d N ?c es")
    with True Cons.prems have n: "n = n'" and ex: "examined = ?x # ex'"
      by (simp_all add: mainLoop_step)
    note ih = Cons.IH [OF r]
    have 1: "examined = map (examine sv d) (take (length examined) (e # es))"
      using ih ex by simp
    have 2: "n = c + int (length (filter succeeded examined))"
      using ih ex n by simp
    have 3: "N \<le> n \<or> length examined = length (e # es)"
      using ih ex n by auto
    have 4: "\<forall>j<length examined. c + int (length (filter succeeded (take j examined))) < N"
    proof (intro allI impI)
      fix j assume j: "j < length examined"
      show "c + int (length (filter succeeded (take j examined))) < N"
      proof (cases j)
        case 0
        with True show ?thesis by simp
      next
        case (Suc i)
        with j ex have "i < length ex'" by simp
        with ih have "?c + int (length (filter succeeded (take i ex'))) < N" by blast
        with Suc ex show ?thesis by (auto split: if_splits)
      qed
    qed
    from 1 2 3 4 show ?thesis by blast
  qed
qed

text \<open>
  C7 (as amended). The budget is \<open>parseInt(process.argv[2]) || 1\<close>: 1 without
  an argument and for an argument of 0, the argument otherwise. For every budget
  and every data directory, the loop examines the entries in their order, each
  once. A directory counts exactly when the work on one of its eligible metadata
  files completes, and then exactly that one transcript is written there; a
  directory without eligible work, one whose transcriptions all fail, and a
  plain file are passed over without counting and get no transcript. An entry
  is examined only while the count is below the budget, and the loop ends with
  the budget reached or every entry examined once.
\<close>

theorem C7_budget:
  assumes "transcribeMain sv dataDir parsed podcastDirs = (n, examined)"
  shows "numPodcastsOf None = 1 \<and>
     numPodcastsOf (Some k) = (if k = 0 then 1 else k) \<and>
     examined = map (examine sv dataDir) (take (length examined) podcastDirs) \<and>
     n = int (length (filter succeeded examined)) \<and>
     (numPodcastsOf parsed \<le> n \<or> length examined = length podcastDirs) \<and>
     (0 \<le> numPodcastsOf parsed \<longrightarrow> n \<le> numPodcastsOf parsed) \<and>
     (\<forall>j<length examined.
        int (length (filter succeeded (take j examined))) < numPodcastsOf parsed) \<and>
     (\<forall>j<length examined.
        succeeded (examined ! j) \<longleftrightarrow>
          (\<exists>files. snd (podcastDirs ! j) = PodcastDirectory files \<and>
             (\<exists>m\<in>set files. completes sv (pathJoin dataDir (fst (podcastDirs ! j))) files m))) \<and>
     (\<forall>d files.
        (processed (processPodcastDirectory sv d files) \<longleftrightarrow>
           (\<exists>m\<in>set files. completes sv d files m)) \<and>
        (processed (processPodcastDirectory sv d files) \<longrightarrow>
           (\<exists>m\<in>set files. completes sv d files m \<and>
              insert (transcriptFileName m) (set files) \<subseteq>
                set (listing (processPodcastDirectory sv d files)) \<and>
              set (listing (processPodcastDirectory sv d files)) \<subseteq>
                insert (transcriptFileName m) (insert ''failed_transcriptions.txt'' (set files)))) \<and>
        (\<not> processed (processPodcastDirectory sv d files) \<longrightarrow>
           set (listing (processPodcastDirectory sv d files)) \<subseteq>
             insert ''failed_transcriptions.txt'' (set files)))"
proof -
  let ?N = "numPodcastsOf parsed"
  have a: "numPodcastsOf None = 1 \<and> numPodcastsOf (Some k) = (if k = 0 then 1 else k)"
    by (simp add: numPodcastsOf_def)
  have b: "examined = map (examine sv dataDir) (take (length examined) podcastDirs) \<and>
     n = int (length (filter succeeded examined)) \<and>
     (?N \<le> n \<or> length examined = length podcastDirs) \<and>
     (\<forall>j<length examined. int (length (filter succeeded (take j examined))) < ?N)"
  proof (cases "podcastDirs = []")
    case True
    with assms show ?thesis by (simp add: transcribeMain_def)
  next
    case False
    with assms have "mainLoop sv dataDir ?N 0 podcastDirs = (n, examined)"
      by (simp add: transcribeMain_def)
    from mainLoop_spec [OF this] show ?thesis unfolding add_0 .
  qed
  have c: "0 \<le> ?N \<longrightarrow> n \<le> ?N"
  proof
    assume N: "0 \<le> ?N"
    show "n \<le> ?N"
    proof (cases examined rule: rev_cases)
      case Nil
      with b N show ?thesis by simp
    next
      case (snoc ys y)
      from b have "\<forall>j<length examined.
          int (length (filter succeeded (take j examined))) < ?N" by blast
      moreover from snoc have "length ys < length examined" by simp
      ultimately have "int (length (filter succeeded (take (length ys) examined))) < ?N"
        by blast
      with snoc have "int (length (filter succeeded ys)) < ?N" by simp
      moreover from b have "n = int (length (filter succeeded examined))" by blast
      with snoc have "n \<le> int (length (filter succeeded ys)) + 1" by simp
      ultimately show ?thesis by simp
    qed
  qed
  have d: "\<forall>j<length examined.
        succeeded (examined ! j) \<longleftrightarrow>
          (\<exists>files. snd (podcastDirs ! j) = PodcastDirectory files \<and>
             (\<exists>m\<in>set files. completes sv (pathJoin dataDir (fst (podcastDirs ! j))) files m))"
  proof (intro allI impI)
    fix j assume j: "j < length examined"
    from b have e: "examined = map (examine sv dataDir) (take (length examined) podcastDirs)"
      by blast
    then have "length examined = length (take (length examined) podcastDirs)"
      by (metis length_map)
    with j have jp: "j < length podcastDirs" by simp
    have "examined ! j = map (examine sv dataDir) (take (length examined) podcastDirs) ! j"
      using e by simp
    also have "\<dots> = examine sv dataDir (podcastDirs ! j)"
      using j jp by simp
    finally show "succeeded (examined ! j) \<longleftrightarrow>
          (\<exists>files. snd (podcastDirs ! j) = PodcastDirectory files \<and>
             (\<exists>m\<in>set files. completes sv (pathJoin dataDir (fst (podcastDirs ! j))) files m))"
      by (simp add: succeeded_examine)
  qed
  from a b c d processPodcastDirectory_processed [of sv] show ?thesis by blast
qed

text \<open>
  The default budget on the example directory: the first podcast has nothing
  left to do, the file is skipped, the transcription in the third entry fails
  and does not count, the next podcast is transcribed and the last one is not
  examined.
\<close>

theorem C7_budget_witness:
  "transcribeMain exampleServices ''data'' None exampleDataDir =
     (1, [(''a'', Some \<lparr>processed = False, listing = [''1.json'', ''1_transcript.json''],
                         transcribeCalls = []\<rparr>),
          (''notes.txt'', None),
          (''e'', Some \<lparr>processed = False, listing = [''6.json'', ''failed_transcriptions.txt''],
                         transcribeCalls = [(''6.json'', [''6.json''])]\<rparr>),
          (''b'', Some \<lparr>processed = True, listing = [''2.json'', ''2_transcript.json''],
                         transcribeCalls = [(''2.json'', [''2.json''])]\<rparr>)]) \<and>
   numPodcastsOf None = 1 \<and>
   (1 :: int) = int (length (filter succeeded
     [(''a'', Some \<lparr>processed = False, listing = [''1.json'', ''1_transcript.json''],
                     transcribeCalls = []\<rparr>),
      (''notes.txt'', None),
      (''e'', Some \<lparr>processed = False, listing = [''6.json'', ''failed_transcriptions.txt''],
                     transcribeCalls = [(''6.json'', [''6.json''])]\<rparr>),
      (''b'', Some \<lparr>processed = True, listing = [''2.json'', ''2_transcript.json''],
                     transcribeCalls = [(''2.json'', [''2.json''])]\<rparr>)])) \<and>
   completes exampleServices ''data/b'' [''2.json''] ''2.json'' \<and>
   \<not> completes exampleServices ''data/e'' [''6.json''] ''6.json'' \<and>
   eligible exampleServices ''data/e'' [''6.json''] ''6.json'' \<and>
   \<not> eligible exampleServices ''data/a'' [''1.json'', ''1_transcript.json''] ''1.json''"
proof -
  let ?examined = "[(''a'', Some \<lparr>processed = False, listing = [''1.json'', ''1_transcript.json''],
                         transcribeCalls = []\<rparr>),
          (''notes.txt'', None),
          (''e'', Some \<lparr>processed = False, listing = [''6.json'', ''failed_transcriptions.txt''],
                         transcribeCalls = [(''6.json'', [''6.json''])]\<rparr>),
          (''b'', Some \<lparr>processed = True, listing = [''2.json'', ''2_transcript.json''],
                         transcribeCalls = [(''2.json'', [''2.json''])]\<rparr>)]"
  have e: "transcribeMain exampleServices ''data'' None exampleDataDir = (1, ?examined)"
    by code_simp
  have x: "completes exampleServices ''data/b'' [''2.json''] ''2.json''"
    "\<not> completes exampleServices ''data/e'' [''6.json''] ''6.json''"
    "eligible exampleServices ''data/e'' [''6.json''] ''6.json''"
    "\<not> eligible exampleServices ''data/a'' [''1.json'', ''1_transcript.json''] ''1.json''"
    by code_simp+
  from C7_budget [OF e] have "numPodcastsOf None = 1"
    and "(1 :: int) = int (length (filter succeeded ?examined))"
    by blast+
  with e x show ?thesis by blast
qed

text \<open>
  C7 (as stated) fails. The claim: the orchestrator stops once N units of work
  are completed or all directories are exhausted. With a budget of 2 and one
  podcast holding two eligible episodes, the run ends after one transcription
  although the second episode is still eligible and would complete; and with an
  argument of 0 one unit of work is done.
\<close>

theorem C7_one_unit_per_directory:
  "transcribeMain exampleServices ''data'' (Some 2) twoEpisodes =
     (1, [(''d'', Some \<lparr>processed = True,
                         listing = [''4.json'', ''5.json'', ''4_transcript.json''],
                         transcribeCalls = [(''4.json'', [''4.json'', ''5.json''])]\<rparr>)]) \<and>
   completes exampleServices ''data/d'' [''4.json'', ''5.json'', ''4_transcript.json''] ''5.json'' \<and>
   numPodcastsOf (Some 0) = 1 \<and>
   fst (transcribeMain exampleServices ''data'' (Some 0) twoEpisodes) = 1"
  by code_simp

text \<open>The only call on the example directory is for the episode without a transcript.\<close>

theorem transcription_skips_witness:
  "(''2.json'', [''2.json'']) \<in> set (transcribeCalls (processPodcastDirectory exampleServices ''data/b'' [''2.json''])) \<and>
   transcriptFileName ''2.json'' \<notin> set [''2.json''] \<and>
   transcribeCalls (processPodcastDirectory exampleServices ''data/a'' [''1.json'', ''1_transcript.json'']) = []"
proof -
  have c: "(''2.json'', [''2.json'']) \<in> set (transcribeCalls (processPodcastDirectory exampleServices ''data/b'' [''2.json'']))"
    by code_simp
  have d: "transcribeCalls (processPodcastDirectory exampleServices ''data/a'' [''1.json'', ''1_transcript.json'']) = []"
    by code_simp
  from transcription_skips_existing_transcripts [OF c] c d show ?thesis by blast
qed

section \<open>Persistence: proofs\<close>

lemma existing_iff:
  "0 < length (filter (\<lambda>row. externalId row = ext) (episodesTable db)) \<longleftrightarrow> hasRow db ext"
  by (auto simp: filter_empty_conv hasRow_def)

lemma insertOne_cases:
  "insertOne st db (ep, ts) =
     (if hasRow db (idToString st (epId ep)) then say (SkippingEpisode (epTitle ep)) db
      else if \<not> acceptsEpisode st ep then say (ErrorInserting (epTitle ep)) db
      else
        let insertedEpisode = episodeRow st (nextEpisodeId db) ep;
            db1 = say (InsertedEpisode (epTitle ep))
                    (db\<lparr>episodesTable := episodesTable db @ [insertedEpisode],
                        nextEpisodeId := Suc (nextEpisodeId db)\<rparr>)
        in case ts of
             None \<Rightarrow> db1
           | Some ts \<Rightarrow>
               if length ts > 0 then
                 (if acceptsTimestamps st ts
                  then say (InsertedTimestamps (length ts) (epTitle ep))
                         (db1\<lparr>episodeTimestampsTable :=
                                episodeTimestampsTable db1 @
                                map (timestampRow (rowId insertedEpisode)) ts\<rparr>)
                  else say (ErrorInserting (epTitle ep)) db1)
               else db1)"
  unfolding insertOne_def existing_iff [symmetric] by (simp only: fst_conv snd_conv Let_def)

lemma insertOne_existing:
  assumes "hasRow db (idToString st (epId ep))"
  shows "insertOne st db (ep, ts) = say (SkippingEpisode (epTitle ep)) db"
  using assms by (simp only: insertOne_cases if_True)

lemma insertOne_rejected:
  assumes "\<not> hasRow db (idToString st (epId ep))" and "\<not> acceptsEpisode st ep"
  shows "insertOne st db (ep, ts) = say (ErrorInserting (epTitle ep)) db"
  using assms by (simp only: insertOne_cases if_True if_False not_False_eq_True)

lemma insertOne_accepted:
  assumes "\<not> hasRow db (idToString st (epId ep))" and "acceptsEpisode st ep"
  shows "episodesTable (insertOne st db (ep, ts)) =
           episodesTable db @ [episodeRow st (nextEpisodeId db) ep]"
  using assms by (simp add: insertOne_cases Let_def say_def split: option.splits)

lemma say_tables [simp]:
  "episodesTable (say line db) = episodesTable db"
  "episodeTimestampsTable (say line db) = episodeTimestampsTable db"
  "nextEpisodeId (say line db) = nextEpisodeId db"
  "hasRow (say line db) ext = hasRow db ext"
  by (simp_all add: say_def hasRow_def)

lemma insertOne_keeps_rows:
  "hasRow db ext \<Longrightarrow> hasRow (insertOne st db item) ext"
proof (cases item)
  case (Pair ep ts)
  assume h: "hasRow db ext"
  show ?thesis
  proof (cases "hasRow db (idToString st (epId ep))")
    case True
    with h Pair show ?thesis by (simp add: insertOne_existing)
  next
    case False
    show ?thesis
    proof (cases "acceptsEpisode st ep")
      case True
      from insertOne_accepted [OF False True, of ts] h Pair show ?thesis
        by (simp add: hasRow_def)
    next
      case no: False
      with h Pair False show ?thesis by (simp add: insertOne_rejected)
    qed
  qed
qed

lemma insertData_keeps_rows:
  "hasRow db ext \<Longrightarrow> hasRow (insertData st items db) ext"
  by (induction items arbitrary: db) (simp_all add: insertOne_keeps_rows)

lemma insertOne_settles:
  "hasRow (insertOne st db (ep, ts)) (idToString st (epId ep)) \<or> \<not> acceptsEpisode st ep"
proof (cases "hasRow db (idToString st (epId ep))")
  case True
  then show ?thesis by (simp add: insertOne_existing)
next
  case False
  show ?thesis
  proof (cases "acceptsEpisode st ep")
    case True
    from insertOne_accepted [OF False True, of ts] show ?thesis
      by (simp add: hasRow_def episodeRow_def)
  next
    case no: False
    then show ?thesis by simp
  qed
qed

lemma insertData_settles:
  "list_all (settled st db) done \<Longrightarrow> list_all (settled st (insertData st items db)) (done @ items)"
proof (induction items arbitrary: db "done")
  case Nil
  then show ?case by simp
next
  case (Cons item items)
  obtain ep ts where i: "item = (ep, ts)" by (cases item)
  have "list_all (settled st (insertOne st db item)) (done @ [item])"
    using Cons.prems insertOne_settles [of st db ep ts] i
    by (auto simp: list_all_iff settled_def insertOne_keeps_rows)
  from Cons.IH [OF this] show ?case by simp
qed

lemma insertOne_settled_noop:
  assumes "settled st db item"
  shows "episodesTable (insertOne st db item) = episodesTable db \<and>
         episodeTimestampsTable (insertOne st db item) = episodeTimestampsTable db \<and>
         nextEpisodeId (insertOne st db item) = nextEpisodeId db"
proof (cases item)
  case (Pair ep ts)
  show ?thesis
  proof (cases "hasRow db (idToString st (epId ep))")
    case True
    with Pair show ?thesis by (simp add: insertOne_existing)
  next
    case False
    with assms Pair have "\<not> acceptsEpisode st ep" by (simp add: settled_def)
    with False Pair show ?thesis by (simp add: insertOne_rejected)
  qed
qed

lemma insertData_settled_noop:
  "list_all (settled st db) items \<Longrightarrow>
   episodesTable (insertData st items db) = episodesTable db \<and>
   episodeTimestampsTable (insertData st items db) = episodeTimestampsTable db \<and>
   nextEpisodeId (insertData st items db) = nextEpisodeId db"
proof (induction items arbitrary: db)
  case Nil
  show ?case by simp
next
  case (Cons item items)
  from Cons.prems have s: "settled st db item" and r: "list_all (settled st db) items" by simp_all
  note n = insertOne_settled_noop [OF s]
  from n have "settled st (insertOne st db item) x = settled st db x" for x
    by (simp add: settled_def hasRow_def)
  with r have "list_all (settled st (insertOne st db item)) items"
    by (simp add: list_all_iff)
  from Cons.IH [OF this] n show ?case by simp
qed

lemma insertOne_distinct:
  assumes "distinct (map externalId (episodesTable db))"
  shows "distinct (map externalId (episodesTable (insertOne st db item)))"
proof (cases item)
  case (Pair ep ts)
  show ?thesis
  proof (cases "hasRow db (idToString st (epId ep))")
    case True
    with Pair assms show ?thesis by (simp add: insertOne_existing)
  next
    case False
    show ?thesis
    proof (cases "acceptsEpisode st ep")
      case True
      from insertOne_accepted [OF False True, of ts] False assms Pair show ?thesis
        by (simp add: hasRow_def episodeRow_def)
    next
      case no: False
      with False Pair assms show ?thesis by (simp add: insertOne_rejected)
    qed
  qed
qed

lemma insertData_distinct:
  "distinct (map externalId (episodesTable db)) \<Longrightarrow>
   distinct (map externalId (episodesTable (insertData st items db)))"
  by (induction items arbitrary: db) (simp_all add: insertOne_distinct)

text \<open>
  C5. For an episode whose external id has a row in the episodes table, the step
  inserts nothing: both tables are unchanged, the skip is logged, and the loop
  goes on with the remaining items. Running \<open>insertData\<close> a second time on the
  same data leaves both tables as the first run left them, and distinct
  external ids stay distinct.
\<close>

theorem C5_persistence_idempotent:
  "(hasRow db (idToString st (epId ep)) \<longrightarrow>
      episodesTable (insertOne st db (ep, ts)) = episodesTable db \<and>
      episodeTimestampsTable (insertOne st db (ep, ts)) = episodeTimestampsTable db \<and>
      console (insertOne st db (ep, ts)) = console db @ [SkippingEpisode (epTitle ep)] \<and>
      insertData st ((ep, ts) # rest) db =
        insertData st rest (say (SkippingEpisode (epTitle ep)) db)) \<and>
   episodesTable (insertData st items (insertData st items db)) =
     episodesTable (insertData st items db) \<and>
   episodeTimestampsTable (insertData st items (insertData st items db)) =
     episodeTimestampsTable (insertData st items db) \<and>
   (distinct (map externalId (episodesTable db)) \<longrightarrow>
      distinct (map externalId (episodesTable (insertData st items (insertData st items db)))))"
proof -
  have 1: "hasRow db (idToString st (epId ep)) \<longrightarrow>
      episodesTable (insertOne st db (ep, ts)) = episodesTable db \<and>
      episodeTimestampsTable (insertOne st db (ep, ts)) = episodeTimestampsTable db \<and>
      console (insertOne st db (ep, ts)) = console db @ [SkippingEpisode (epTitle ep)] \<and>
      insertData st ((ep, ts) # rest) db =
        insertData st rest (say (SkippingEpisode (epTitle ep)) db)"
    by (simp add: insertOne_existing) (simp add: say_def)
  have "list_all (settled st (insertData st items db)) ([] @ items)"
    by (rule insertData_settles) simp
  then have s: "list_all (settled st (insertData st items db)) items" by simp
  note 2 = insertData_settled_noop [OF s]
  have 3: "distinct (map externalId (episodesTable db)) \<longrightarrow>
      distinct (map externalId (episodesTable (insertData st items (insertData st items db))))"
    by (simp add: insertData_distinct)
  from 1 2 3 show ?thesis by blast
qed

text \<open>
  The example database holds episode 7; the items are episodes 7 and 8 with one
  segment each.
\<close>

theorem C5_persistence_witness:
  "hasRow exampleDatabase (idToString exampleStore (epId (fst (hd exampleItems)))) \<and>
   episodesTable (insertOne exampleStore exampleDatabase (hd exampleItems)) =
     episodesTable exampleDatabase \<and>
   episodeTimestampsTable (insertOne exampleStore exampleDatabase (hd exampleItems)) = [] \<and>
   console (insertOne exampleStore exampleDatabase (hd exampleItems)) = [SkippingEpisode ''Seven''] \<and>
   length (episodesTable (insertData exampleStore exampleItems exampleDatabase)) = 2 \<and>
   length (episodesTable (insertData exampleStore exampleItems
             (insertData exampleStore exampleItems exampleDatabase))) = 2 \<and>
   length (episodeTimestampsTable (insertData exampleStore exampleItems
             (insertData exampleStore exampleItems exampleDatabase))) = 1"
proof -
  let ?ep = "fst (hd exampleItems)"
  let ?ts = "snd (hd exampleItems)"
  have i: "hd exampleItems = (?ep, ?ts)" by simp
  have h: "hasRow exampleDatabase (idToString exampleStore (epId ?ep))" by code_simp
  have t: "episodeTimestampsTable exampleDatabase = []" "console exampleDatabase = []"
    "epTitle ?ep = ''Seven''"
    by (simp_all add: exampleDatabase_def exampleItems_def)
  have n: "length (episodesTable (insertData exampleStore exampleItems exampleDatabase)) = 2"
    "length (episodeTimestampsTable (insertData exampleStore exampleItems exampleDatabase)) = 1"
    by code_simp+
  from C5_persistence_idempotent [of exampleDatabase exampleStore ?ep ?ts _ exampleItems] h t n
  show ?thesis unfolding i [symmetric] by simp
qed

section \<open>Directory names: what the code computes\<close>

lemma sanitizedTitle_map:
  "sanitizedTitle t = map (\<lambda>c. if isAlnum c then toLowerCaseChar c else CHR ''_'') t"
proof (induction t)
  case Nil
  show ?case by (simp add: sanitizedTitle_def toLowerCase_def)
next
  case (Cons c cs)
  have u: "toLowerCaseChar (CHR ''_'') = CHR ''_''"
    by (simp add: toLowerCaseChar_def isUpper_def)
  from Cons show ?case
    by (simp add: sanitizedTitle_def toLowerCase_def u)
qed

text \<open>
  C8 (as amended). The directory name has one character per character of the
  title: an ASCII letter or digit in lower case, and one underscore for every
  other character, so a run of \<open>n\<close> non-alphanumeric characters becomes
  \<open>n\<close> underscores.
\<close>

theorem C8_sanitizedTitle_one_underscore_each:
  "length (sanitizedTitle t) = length t \<and>
   (\<forall>i < length t. sanitizedTitle t ! i =
       (if isAlnum (t ! i) then toLowerCaseChar (t ! i) else CHR ''_'')) \<and>
   (\<not> isAlnum c \<longrightarrow>
      sanitizedTitle (pre @ replicate n c @ post) =
        sanitizedTitle pre @ replicate n (CHR ''_'') @ sanitizedTitle post)"
  by (simp add: sanitizedTitle_map)

text \<open>A title with a run of three characters that are not alphanumeric.\<close>

theorem C8_sanitizedTitle_witness:
  "length (sanitizedTitle ''Joe & Co'') = length ''Joe & Co'' \<and>
   sanitizedTitle (''Joe'' @ replicate 3 (CHR '' '') @ ''Co'') =
     sanitizedTitle ''Joe'' @ replicate 3 (CHR ''_'') @ sanitizedTitle ''Co'' \<and>
   sanitizedTitle ''Joe'' = ''joe''"
proof -
  have h: "\<not> isAlnum (CHR '' '')"
    by code_simp
  have j: "sanitizedTitle ''Joe'' = ''joe''"
    by code_simp
  from C8_sanitizedTitle_one_underscore_each [of "''Joe & Co''" "CHR '' ''" "''Joe''" 3 "''Co''"] h j
  show ?thesis by simp
qed

text \<open>
  C8 (as stated) fails: the three characters between \<open>Joe\<close> and \<open>Co\<close>
  form one run, which the code turns into three underscores and the stated rule
  into one.
\<close>

theorem C8_runs_not_collapsed:
  "sanitizedTitle ''Joe & Co'' = ''joe___co'' \<and>
   spec_collapseRuns ''Joe & Co'' = ''joe_co'' \<and>
   podcastDirOf ''Joe & Co'' = ''data/joe___co''"
  by code_simp

end
